theory Spec2Isabelle
  imports Main
begin

section \<open>Python values\<close>

text \<open>
  \<^verbatim>\<open>appconf.py\<close> works on the object that \<^verbatim>\<open>yaml.safe_load\<close> returns and builds a
  directive tree out of tuples, lists and strings. Both live in one universe of Python
  values: the document uses every constructor but \<open>PTuple\<close>, the directive tree uses
  \<open>PTuple\<close>, \<open>PList\<close> and whatever value the document put into a token position.
  A mapping is an association list in insertion order with string keys.

  The one object the code writes into is the mapping of an upstream entry
  (\<^verbatim>\<open>config['name'] = ...\<close>). The loader returns one object for a YAML anchor and its
  aliases, so such a mapping can stand at several places of the document: it is then written
  as a reference \<open>PRef a\<close> at each place, and its contents are kept in a store, by address.
  Every other object is only read, and is written out in place wherever it stands.
\<close>

datatype pyval =
    PNone
  | PBool bool
  | PInt int
  | PStr string
  | PList "pyval list"
  | PTuple "pyval list"
  | PDict "(string \<times> pyval) list"
  | PRef nat

text \<open>Every \<^verbatim>\<open>raise\<close> of the source and every exception of a Python primitive it calls.\<close>

datatype error =
    Exception string
  | NotImplementedError string
  | KeyError string
  | TypeError
  | IndexError
  | AttributeError

fun bindE :: "error + 'a \<Rightarrow> ('a \<Rightarrow> error + 'b) \<Rightarrow> error + 'b" where
  "bindE (Inl e) f = Inl e"
| "bindE (Inr x) f = f x"

fun mapE :: "('a \<Rightarrow> error + 'b) \<Rightarrow> 'a list \<Rightarrow> error + 'b list" where
  "mapE f [] = Inr []"
| "mapE f (x # xs) = bindE (f x) (\<lambda>y. bindE (mapE f xs) (\<lambda>ys. Inr (y # ys)))"

subsection \<open>Primitives\<close>

definition isinstance_str :: "pyval \<Rightarrow> bool" where
  "isinstance_str v = (case v of PStr _ \<Rightarrow> True | _ \<Rightarrow> False)"

definition isinstance_dict :: "pyval \<Rightarrow> bool" where
  "isinstance_dict v = (case v of PDict _ \<Rightarrow> True | PRef _ \<Rightarrow> True | _ \<Rightarrow> False)"

definition isinstance_list :: "pyval \<Rightarrow> bool" where
  "isinstance_list v = (case v of PList _ \<Rightarrow> True | _ \<Rightarrow> False)"

definition isinstance_bool :: "pyval \<Rightarrow> bool" where
  "isinstance_bool v = (case v of PBool _ \<Rightarrow> True | _ \<Rightarrow> False)"

text \<open>Truth value of \<^verbatim>\<open>if v:\<close>. The functions that test it, print a value or take it
  apart work on a document in which the references have been replaced by the mappings they
  stand for (\<open>resolve\<close> below); a reference is no sequence and has no contents for them.\<close>

fun truthy :: "pyval \<Rightarrow> bool" where
  "truthy PNone = False"
| "truthy (PBool b) = b"
| "truthy (PInt i) = (i \<noteq> 0)"
| "truthy (PStr s) = (s \<noteq> [])"
| "truthy (PList xs) = (xs \<noteq> [])"
| "truthy (PTuple xs) = (xs \<noteq> [])"
| "truthy (PDict kvs) = (kvs \<noteq> [])"
| "truthy (PRef a) = True"

text \<open>\<^verbatim>\<open>k in s\<close> on two strings: \<open>k\<close> occurs in \<open>s\<close> as a contiguous piece.\<close>

fun str_contains :: "string \<Rightarrow> string \<Rightarrow> bool" where
  "str_contains k [] = (k = [])"
| "str_contains k (c # s) = (take (length k) (c # s) = k \<or> str_contains k s)"

text \<open>\<^verbatim>\<open>k in v\<close> for a string \<open>k\<close>.\<close>

fun py_contains :: "string \<Rightarrow> pyval \<Rightarrow> error + bool" where
  "py_contains k (PDict kvs) = Inr (k \<in> set (map fst kvs))"
| "py_contains k (PList xs) = Inr (PStr k \<in> set xs)"
| "py_contains k (PTuple xs) = Inr (PStr k \<in> set xs)"
| "py_contains k (PStr s) = Inr (str_contains k s)"
| "py_contains k _ = Inl TypeError"

text \<open>\<^verbatim>\<open>v[k]\<close> for a string \<open>k\<close>.\<close>

fun py_getitem :: "pyval \<Rightarrow> string \<Rightarrow> error + pyval" where
  "py_getitem (PDict kvs) k = (case map_of kvs k of None \<Rightarrow> Inl (KeyError k) | Some v \<Rightarrow> Inr v)"
| "py_getitem _ k = Inl TypeError"

text \<open>\<^verbatim>\<open>d[k] = v\<close> on a mapping: an existing key keeps its place, a new key goes last.\<close>

fun dict_set :: "(string \<times> pyval) list \<Rightarrow> string \<Rightarrow> pyval \<Rightarrow> (string \<times> pyval) list" where
  "dict_set [] k v = [(k, v)]"
| "dict_set ((k', v') # kvs) k v = (if k' = k then (k, v) # kvs else (k', v') # dict_set kvs k v)"

fun py_setitem :: "pyval \<Rightarrow> string \<Rightarrow> pyval \<Rightarrow> error + pyval" where
  "py_setitem (PDict kvs) k v = Inr (PDict (dict_set kvs k v))"
| "py_setitem _ k v = Inl TypeError"

text \<open>\<^verbatim>\<open>v.get(k, default)\<close> and \<^verbatim>\<open>v.items()\<close>: methods of mappings only.\<close>

fun py_get :: "pyval \<Rightarrow> string \<Rightarrow> pyval \<Rightarrow> error + pyval" where
  "py_get (PDict kvs) k d = Inr (case map_of kvs k of None \<Rightarrow> d | Some v \<Rightarrow> v)"
| "py_get _ k d = Inl AttributeError"

fun py_items :: "pyval \<Rightarrow> error + (string \<times> pyval) list" where
  "py_items (PDict kvs) = Inr kvs"
| "py_items _ = Inl AttributeError"

text \<open>\<^verbatim>\<open>for x in v\<close>: the elements of a list or tuple, the characters of a string, the
  keys of a mapping.\<close>

fun py_iter :: "pyval \<Rightarrow> error + pyval list" where
  "py_iter (PList xs) = Inr xs"
| "py_iter (PTuple xs) = Inr xs"
| "py_iter (PStr s) = Inr (map (\<lambda>c. PStr [c]) s)"
| "py_iter (PDict kvs) = Inr (map (\<lambda>kv. PStr (fst kv)) kvs)"
| "py_iter _ = Inl TypeError"

text \<open>\<^verbatim>\<open>s.split(' ')\<close>: cut at every single space; two spaces in a row give an empty
  piece, and no other character separates.\<close>

fun split_space :: "string \<Rightarrow> string list" where
  "split_space [] = [[]]"
| "split_space (c # s) =
     (if c = CHR '' '' then [] # split_space s
      else (case split_space s of [] \<Rightarrow> [[c]] | w # ws \<Rightarrow> (c # w) # ws))"

fun py_split :: "pyval \<Rightarrow> error + string list" where
  "py_split (PStr s) = Inr (split_space s)"
| "py_split _ = Inl AttributeError"

text \<open>\<^verbatim>\<open>sep.join(xs)\<close> on strings, and \<^verbatim>\<open>' '.join(xs)\<close> on values: every element has
  to be a string.\<close>

fun join :: "string \<Rightarrow> string list \<Rightarrow> string" where
  "join sep [] = []"
| "join sep [s] = s"
| "join sep (s # t # ss) = s @ sep @ join sep (t # ss)"

fun the_str :: "pyval \<Rightarrow> error + string" where
  "the_str (PStr s) = Inr s"
| "the_str _ = Inl TypeError"

definition py_join :: "pyval list \<Rightarrow> error + string" where
  "py_join xs = bindE (mapE the_str xs) (\<lambda>ss. Inr (join '' '' ss))"

text \<open>The elements \<^verbatim>\<open>item[-1]\<close>, \<^verbatim>\<open>item[0]\<close> and \<^verbatim>\<open>item[0:-1]\<close> pick from: a list, a
  tuple or the characters of a string; a mapping has no key \<^verbatim>\<open>-1\<close>, the other values
  cannot be indexed.\<close>

fun py_seq :: "pyval \<Rightarrow> error + pyval list" where
  "py_seq (PList xs) = Inr xs"
| "py_seq (PTuple xs) = Inr xs"
| "py_seq (PStr s) = Inr (map (\<lambda>c. PStr [c]) s)"
| "py_seq (PDict kvs) = Inl (KeyError ''-1'')"
| "py_seq _ = Inl TypeError"

section \<open>The serializer\<close>

text \<open>
  \<^verbatim>\<open>emit_nginx_conf(config, *, indent=0)\<close> prints one line at a time and may raise in
  the middle: the result is the lines printed so far and the exception, if any.
\<close>

definition white :: "int \<Rightarrow> string" where
  "white indent = replicate (nat indent) CHR '' ''"

lemma py_seq_last_size:
  "py_seq item = Inr elems \<Longrightarrow> elems \<noteq> [] \<Longrightarrow> last elems = PList children \<Longrightarrow>
   size_list size children < size item"
proof (cases item)
  case (PList xs)
  assume a: "py_seq item = Inr elems" "elems \<noteq> []" "last elems = PList children"
  with PList have "PList children \<in> set xs" by (metis last_in_set py_seq.simps(1) sum.inject(2))
  then have "size (PList children) \<le> size_list size xs" by (simp add: size_list_estimation')
  with PList show ?thesis by simp
next
  case (PTuple xs)
  assume a: "py_seq item = Inr elems" "elems \<noteq> []" "last elems = PList children"
  with PTuple have "PList children \<in> set xs" by (metis last_in_set py_seq.simps(2) sum.inject(2))
  then have "size (PList children) \<le> size_list size xs" by (simp add: size_list_estimation')
  with PTuple show ?thesis by simp
next
  case (PStr s)
  assume a: "py_seq item = Inr elems" "elems \<noteq> []" "last elems = PList children"
  with PStr have "PList children \<in> set (map (\<lambda>c. PStr [c]) s)"
    by (metis last_in_set py_seq.simps(3) sum.inject(2))
  then show ?thesis by auto
qed auto

function emit_nginx_conf :: "pyval list \<Rightarrow> int \<Rightarrow> string list \<times> error option" where
  "emit_nginx_conf [] indent = ([], None)"
| "emit_nginx_conf (item # rest) indent =
     (case py_seq item of
        Inl e \<Rightarrow> ([], Some e)
      | Inr elems \<Rightarrow>
          if elems = [] then ([], Some IndexError)
          else (case last elems of
            PList children \<Rightarrow>
              (case py_join (butlast elems) of
                 Inl e \<Rightarrow> ([], Some e)
               | Inr s \<Rightarrow>
                   (case emit_nginx_conf children (indent + 2) of
                      (inner, Some e) \<Rightarrow> ((white indent @ s @ '' {'') # inner, Some e)
                    | (inner, None) \<Rightarrow>
                        (case emit_nginx_conf rest indent of
                           (more, r) \<Rightarrow>
                             ((white indent @ s @ '' {'') # inner @ [white indent @ ''}''] @ more, r))))
          | _ \<Rightarrow>
              (case py_join elems of
                 Inl e \<Rightarrow> ([], Some e)
               | Inr s \<Rightarrow>
                   (case emit_nginx_conf rest indent of
                      (more, r) \<Rightarrow>
                        ((white indent @ s @ (if hd elems = PStr ''#'' then [] else '';'')) # more, r)))))"
  by pat_completeness auto
termination
  by (relation "measure (\<lambda>(cfg, indent). size_list size cfg)")
     (auto dest: py_seq_last_size)

subsection \<open>The directive tree of the data model\<close>

text \<open>
  The data model: a directive is a sequence of string tokens, or such a sequence followed
  by a nested list of directives. The code writes a directive as a tuple (the baseline
  tables, the generated blocks) or as a list (a raw option line after \<^verbatim>\<open>split\<close>);
  \<open>to_py\<close> gives the Python value of a directive.
\<close>

datatype seqkind = AsTuple | AsList

datatype directive = Directive seqkind "string list" "directive list option"

fun mk_seq :: "seqkind \<Rightarrow> pyval list \<Rightarrow> pyval" where
  "mk_seq AsTuple xs = PTuple xs"
| "mk_seq AsList xs = PList xs"

fun to_py :: "directive \<Rightarrow> pyval" where
  "to_py (Directive k toks None) = mk_seq k (map PStr toks)"
| "to_py (Directive k toks (Some ds)) = mk_seq k (map PStr toks @ [PList (map to_py ds)])"

definition is_comment :: "string list \<Rightarrow> bool" where
  "is_comment toks = (case toks of [] \<Rightarrow> False | t # _ \<Rightarrow> t = ''#'')"

text \<open>
  The rendering as the specification words it: the comment test comes first, then the
  block test, then the plain statement.
\<close>

fun render :: "directive list \<Rightarrow> int \<Rightarrow> string list" where
  "render [] indent = []"
| "render (Directive k toks blk # rest) indent =
     (if is_comment toks then [white indent @ join '' '' toks]
      else (case blk of
        Some children \<Rightarrow>
          [white indent @ join '' '' toks @ '' {''] @ render children (indent + 2) @
          [white indent @ ''}'']
      | None \<Rightarrow> [white indent @ join '' '' toks @ '';''])) @ render rest indent"

text \<open>The invariants of the data model: a statement has a first token, and a comment is
  never block-valued.\<close>

fun wf_directive :: "directive \<Rightarrow> bool" where
  "wf_directive (Directive k toks None) = (toks \<noteq> [])"
| "wf_directive (Directive k toks (Some ds)) =
     (\<not> is_comment toks \<and> (\<forall>d \<in> set ds. wf_directive d))"

section \<open>Formatting\<close>

text \<open>\<^verbatim>\<open>str(n)\<close> of an integer, as an f-string prints the upstream counter.\<close>

definition digit :: "nat \<Rightarrow> char" where
  "digit d = ''0123456789'' ! d"

function str_nat :: "nat \<Rightarrow> string" where
  "str_nat n = (if n < 10 then [digit n] else str_nat (n div 10) @ [digit (n mod 10)])"
  by pat_completeness auto
termination
  by (relation "measure id") auto

declare str_nat.simps [simp del]

definition str_int :: "int \<Rightarrow> string" where
  "str_int i = (if i < 0 then CHR ''-'' # str_nat (nat (- i)) else str_nat (nat i))"

text \<open>
  What an f-string puts in place of \<^verbatim>\<open>{v}\<close>: a string as it is, the other values by
  their \<^verbatim>\<open>repr\<close>. A string inside a container is quoted with single quotes and not
  escaped, which is what Python prints for a string without quotes, backslashes and
  control characters.
\<close>

fun py_repr :: "pyval \<Rightarrow> string" where
  "py_repr PNone = ''None''"
| "py_repr (PBool b) = (if b then ''True'' else ''False'')"
| "py_repr (PInt i) = str_int i"
| "py_repr (PStr s) = [CHR 0x27] @ s @ [CHR 0x27]"
| "py_repr (PList xs) = ''['' @ join '', '' (map py_repr xs) @ '']''"
| "py_repr (PTuple xs) =
     ''('' @ join '', '' (map py_repr xs) @ (if length xs = 1 then '','' else []) @ '')''"
| "py_repr (PDict kvs) =
     ''{'' @ join '', '' (map (\<lambda>kv. [CHR 0x27] @ fst kv @ [CHR 0x27] @ '': '' @ py_repr (snd kv)) kvs) @ ''}''"
| "py_repr (PRef a) = ''{...}''"

definition py_str :: "pyval \<Rightarrow> string" where
  "py_str v = (case v of PStr s \<Rightarrow> s | _ \<Rightarrow> py_repr v)"

section \<open>Static file mounts\<close>

definition generate_static_files_entry :: "pyval \<Rightarrow> error + pyval" where
  "generate_static_files_entry description0 =
     (let description =
        (case description0 of
           PStr s \<Rightarrow> PDict [(''path'', description0), (''location'', PStr ''/static'')]
         | _ \<Rightarrow> description0)
      in
      bindE (py_contains ''location'' description) (\<lambda>has_location.
      if \<not> has_location then Inl (Exception ''location is required for static files'') else
      bindE (py_contains ''path'' description) (\<lambda>has_path.
      if \<not> has_path then Inl (Exception ''path is required for static files'') else
      bindE (py_contains ''spa'' description) (\<lambda>has_spa.
      bindE (if has_spa
             then bindE (py_getitem description ''spa'') (\<lambda>v.
                    if \<not> isinstance_str v then Inl (Exception ''spa must be a string'')
                    else Inr v)
             else Inr PNone) (\<lambda>spa.
      bindE (py_getitem description ''path'') (\<lambda>path.
      let config =
        (if truthy spa
         then [PTuple [PStr ''root'', path], PTuple [PStr ''try_files'', PStr ''$uri'', spa]]
         else [PTuple [PStr ''alias'', path]])
      in
      bindE (py_contains ''index'' description) (\<lambda>has_index.
      bindE (if has_index
             then (if truthy spa
                   then Inl (Exception ''cannot use both spa and index options in static files'')
                   else bindE (py_getitem description ''index'') (\<lambda>index.
                          Inr (config @ [PTuple [PStr ''index'', index]])))
             else Inr config) (\<lambda>config.
      bindE (py_getitem description ''location'') (\<lambda>location.
      Inr (PTuple [PStr ''location'', location, PList config]))))))))))"

definition generate_static_files :: "pyval \<Rightarrow> error + pyval list" where
  "generate_static_files description0 =
     (let description =
        (if isinstance_str description0 \<or> isinstance_dict description0
         then PList [description0] else description0)
      in bindE (py_iter description) (mapE generate_static_files_entry))"

section \<open>Upstreams\<close>

text \<open>
  The state a run changes: the module-level \<^verbatim>\<open>_upstream_counter\<close>, the contents of
  \<^verbatim>\<open>/tmp/le-domain.txt\<close> (\<open>None\<close> while the file does not exist), and the store of
  the shared mappings of the document, by address. A function that changes one of them
  takes the state and returns the new one; an exception ends the run, so no state comes
  back with it.
\<close>

record state =
  upstream_counter :: int
  le_domain_txt :: "string option"
  shared :: "(nat \<times> (string \<times> pyval) list) list"

text \<open>
  Reading through a reference, writing the contents of a shared mapping back, and the
  document with every reference replaced by the mapping it stands for. The contents of a
  shared mapping are values without references. A write into a mapping that stands in one
  place of the document changes nothing that is read later (see \<open>parse_single_upstream\<close>),
  so \<open>write_back\<close> records the write for a shared mapping only.
\<close>

fun load :: "(nat \<times> (string \<times> pyval) list) list \<Rightarrow> pyval \<Rightarrow> pyval" where
  "load h (PRef a) = (case map_of h a of None \<Rightarrow> PRef a | Some kvs \<Rightarrow> PDict kvs)"
| "load h v = v"

fun store ::
  "(nat \<times> (string \<times> pyval) list) list \<Rightarrow> nat \<Rightarrow> (string \<times> pyval) list \<Rightarrow>
   (nat \<times> (string \<times> pyval) list) list" where
  "store [] a kvs = [(a, kvs)]"
| "store ((b, old) # h) a kvs = (if b = a then (a, kvs) # h else (b, old) # store h a kvs)"

fun write_back :: "pyval \<Rightarrow> pyval \<Rightarrow> state \<Rightarrow> state" where
  "write_back (PRef a) (PDict kvs) st = st\<lparr>shared := store (shared st) a kvs\<rparr>"
| "write_back target config st = st"


text \<open>The resolved upstream, a dictionary with the four keys \<^verbatim>\<open>name\<close>,
  \<^verbatim>\<open>location\<close>, \<^verbatim>\<open>url\<close> and \<^verbatim>\<open>type\<close>.\<close>

record upstream =
  up_name :: pyval
  up_location :: pyval
  up_url :: string
  up_type :: string

fun py_startswith :: "pyval \<Rightarrow> string \<Rightarrow> error + bool" where
  "py_startswith (PStr s) p = Inr (take (length p) s = p)"
| "py_startswith _ p = Inl AttributeError"

text \<open>The loop \<^verbatim>\<open>for proto in 'http', 'uwsgi'\<close> with its \<^verbatim>\<open>return\<close>, and the
  \<^verbatim>\<open>raise\<close> after it. \<^verbatim>\<open>config['url']\<close> is read again in each round.\<close>

fun match_proto :: "string \<Rightarrow> pyval \<Rightarrow> pyval \<Rightarrow> pyval \<Rightarrow> string list \<Rightarrow> error + upstream" where
  "match_proto server_name config name location [] =
     Inl (Exception (''Please prefix '' @ server_name @ ''.upstream url with protocol name''))"
| "match_proto server_name config name location (proto # protos) =
     bindE (py_getitem config ''url'') (\<lambda>url.
     bindE (py_startswith url (proto @ ''://'')) (\<lambda>starts.
     if starts
     then Inr \<lparr>up_name = name, up_location = location,
               up_url = drop (length proto + 3) (py_str url), up_type = proto\<rparr>
     else match_proto server_name config name location protos))"

text \<open>\<^verbatim>\<open>config\<close> is the entry as it stands in the document: the code reads it through the
  reference, and the assignment \<^verbatim>\<open>config['name'] = ...\<close> writes into the object itself. For
  a shared mapping the write goes to the store, where the next place that holds the
  reference finds it; a mapping that stands in one place only is not read again
  (\<^verbatim>\<open>generate_server\<close> passes over the key \<^verbatim>\<open>upstream\<close>).\<close>

definition parse_single_upstream :: "string \<Rightarrow> pyval \<Rightarrow> state \<Rightarrow> error + (upstream \<times> state)" where
  "parse_single_upstream server_name config0 st =
     (let current = load (shared st) config0 in
      bindE
        (if isinstance_str current
         then Inr (PDict [(''url'', current),
                          (''name'', PStr (server_name @ ''-upstream'')),
                          (''location'', PStr ''/'')], st)
         else bindE (py_contains ''name'' current) (\<lambda>has_name.
           if \<not> has_name
           then (let counter = upstream_counter st + 1 in
                 bindE (py_setitem current ''name'' (PStr (''upstream-auto-'' @ str_int counter)))
                   (\<lambda>config.
                      Inr (config, write_back config0 config (st\<lparr>upstream_counter := counter\<rparr>))))
           else Inr (current, st)))
        (\<lambda>(config, st').
           bindE (py_getitem config ''name'') (\<lambda>name.
           bindE (py_getitem config ''location'') (\<lambda>location.
           bindE (match_proto server_name config name location [''http'', ''uwsgi''])
             (\<lambda>upstream. Inr (upstream, st'))))))"

text \<open>\<^verbatim>\<open>configs[server_name].append(upstream)\<close> on the \<^verbatim>\<open>defaultdict(list)\<close>.\<close>

fun configs_append ::
  "(string \<times> upstream list) list \<Rightarrow> string \<Rightarrow> upstream \<Rightarrow> (string \<times> upstream list) list" where
  "configs_append [] k u = [(k, [u])]"
| "configs_append ((k', us) # rest) k u =
     (if k' = k then (k', us @ [u]) # rest else (k', us) # configs_append rest k u)"

definition upstream_block :: "upstream \<Rightarrow> pyval" where
  "upstream_block u =
     PTuple [PStr ''upstream'', up_name u, PList [PTuple [PStr ''server'', PStr (up_url u)]]]"

text \<open>The inner loop \<^verbatim>\<open>for entry in config\<close>.\<close>

fun parse_entries ::
  "string \<Rightarrow> pyval list \<Rightarrow> pyval list \<times> (string \<times> upstream list) list \<times> state \<Rightarrow>
   error + (pyval list \<times> (string \<times> upstream list) list \<times> state)" where
  "parse_entries server_name [] acc = Inr acc"
| "parse_entries server_name (entry # rest) (upstreams, configs, st) =
     bindE (parse_single_upstream server_name entry st) (\<lambda>(u, st').
       parse_entries server_name rest
         (upstreams @ [upstream_block u], configs_append configs server_name u, st'))"

text \<open>The outer loop over the items of \<^verbatim>\<open>servers\<close>.\<close>

fun parse_servers ::
  "(string \<times> pyval) list \<Rightarrow> pyval list \<times> (string \<times> upstream list) list \<times> state \<Rightarrow>
   error + (pyval list \<times> (string \<times> upstream list) list \<times> state)" where
  "parse_servers [] acc = Inr acc"
| "parse_servers ((server_name, server_config) # rest) acc =
     bindE (py_contains ''upstream'' server_config) (\<lambda>has_upstream.
     if \<not> has_upstream then parse_servers rest acc else
     bindE (py_getitem server_config ''upstream'') (\<lambda>config0.
     let config = (if isinstance_str config0 \<or> isinstance_dict config0
                   then PList [config0] else config0) in
     bindE (py_iter config) (\<lambda>entries.
     bindE (parse_entries server_name entries acc) (parse_servers rest))))"

definition parse_upstreams ::
  "pyval \<Rightarrow> state \<Rightarrow> error + (pyval list \<times> (string \<times> upstream list) list \<times> state)" where
  "parse_upstreams input_config st =
     bindE (py_get input_config ''servers'' (PDict [])) (\<lambda>servers.
     bindE (py_items servers) (\<lambda>items. parse_servers items ([], [], st)))"

section \<open>TLS\<close>

definition generate_tls_config :: "pyval \<Rightarrow> error + pyval list" where
  "generate_tls_config cert =
     bindE (py_getitem cert ''certificate'') (\<lambda>certificate.
     bindE (py_getitem cert ''key'') (\<lambda>key.
     let config =
       [PTuple [PStr ''ssl_certificate'', PStr (''/etc/nginx/certs/'' @ py_str certificate)],
        PTuple [PStr ''ssl_certificate_key'', PStr (''/etc/nginx/certs/'' @ py_str key)]]
     in
     bindE (py_contains ''root_chain'' cert) (\<lambda>has_chain.
     if has_chain
     then bindE (py_getitem cert ''root_chain'') (\<lambda>chain.
            Inr (config @
              [PTuple [PStr ''ssl_trusted_certificate'', PStr (''/etc/nginx/certs/'' @ py_str chain)]]))
     else Inr config)))"

text \<open>\<^verbatim>\<open>f.write(server_name)\<close> takes a string only.\<close>

definition activate_lets_encrypt :: "pyval \<Rightarrow> state \<Rightarrow> error + (pyval \<times> state)" where
  "activate_lets_encrypt server_name st =
     (case server_name of
        PStr s \<Rightarrow>
          Inr (PDict [(''certificate'', PStr (''live/'' @ s @ ''/fullchain.pem'')),
                      (''key'', PStr (''live/'' @ s @ ''/privkey.pem'')),
                      (''root_chain'', PStr (''live/'' @ s @ ''/chain.pem''))],
               st\<lparr>le_domain_txt := Some s\<rparr>)
      | _ \<Rightarrow> Inl TypeError)"

section \<open>The baseline tables\<close>

definition GZIP_TYPES :: "string list" where
  "GZIP_TYPES =
     [''text/plain'', ''text/xml'', ''text/css'', ''application/x-javascript'',
      ''application/javascript'', ''application/ecmascript'', ''application/rss+xml'',
      ''application/xml'', ''application/json'']"

text \<open>The items of the two header dictionaries, in insertion order.\<close>

definition HTTP_HEADERS :: "(string \<times> string) list" where
  \<open>HTTP_HEADERS =
     [(''X-Frame-Options'', ''sameorigin''),
      (''X-Content-Type-Options'', ''nosniff''),
      (''X-XSS-Protection'', ''"1; mode=block"'')]\<close>

definition HTTPS_HEADERS :: "(string \<times> string) list" where
  "HTTPS_HEADERS = (''Strict-Transport-Security'', ''max-age=63072000'') # HTTP_HEADERS"

definition TLS_CIPHERS :: "string list" where
  "TLS_CIPHERS =
     [''ECDHE-RSA-CHACHA20-POLY1305'', ''ECDHE-RSA-AES256-GCM-SHA512'',
      ''ECDHE-RSA-AES256-GCM-SHA384'', ''ECDHE-RSA-AES128-GCM-SHA256'',
      ''DHE-RSA-AES256-GCM-SHA512'', ''DHE-RSA-AES256-GCM-SHA384'',
      ''DHE-RSA-AES128-GCM-SHA256'', ''ECDHE-RSA-AES256-SHA384'',
      ''ECDHE-RSA-AES128-SHA256'']"

definition tup :: "string list \<Rightarrow> pyval" where
  "tup toks = PTuple (map PStr toks)"


definition LOG_FORMAT :: string where
  \<open>LOG_FORMAT =
     [CHR 0x27] @
     ''$remote_addr - $remote_user [$time_local] "$request" $status $body_bytes_sent "$http_referer" '' @
     ''"$http_user_agent" "$request_time $upstream_connect_time $upstream_header_time $upstream_response_time" '' @
     ''$upstream_addr $upstream_status$ssl_protocol/$ssl_session_reused/$ssl_cipher '' @
     ''$connection/$connection_requests $gzip_ratio $request_id'' @
     [CHR 0x27]\<close>

definition NGINX_HTTP :: "pyval list" where
  "NGINX_HTTP =
     [tup [''server_tokens'', ''off''],
      tup [''include'', ''/etc/nginx/mime.types''],
      tup [''default_type'', ''application/octet-stream''],
      tup [''log_format'', ''main'', LOG_FORMAT],
      tup [''access_log'', ''/var/log/nginx/access.log'', ''main'', ''buffer=64k'', ''flush=3s''],
      tup [''error_log'', ''/var/log/nginx/error.log'', ''warn''],
      tup [''gzip'', ''on''],
      tup [''gzip_min_length'', ''1000''],
      tup [''gzip_static'', ''on''],
      tup (''gzip_types'' # GZIP_TYPES),
      tup [''gzip_vary'', ''on''],
      tup [''sendfile'', ''on''],
      tup [''tcp_nopush'', ''on''],
      tup [''tcp_nodelay'', ''on''],
      tup [''keepalive_timeout'', ''65''],
      tup [''keepalive_requests'', ''1000''],
      tup [''postpone_output'', ''1460''],
      tup [''reset_timedout_connection'', ''on''],
      tup [''open_file_cache'', ''max=10000'', ''inactive=20s''],
      tup [''open_file_cache_valid'', ''30s''],
      tup [''open_file_cache_min_uses'', ''2''],
      tup [''open_file_cache_errors'', ''on'']]"

section \<open>Server blocks\<close>

text \<open>The conditional of the strict host check, written twice in the source
  (\<^verbatim>\<open>_base_config_http_common\<close> and \<^verbatim>\<open>base_config_https\<close>).\<close>

definition host_guard :: "pyval \<Rightarrow> pyval" where
  "host_guard server_name =
     PTuple [PStr ''if'', PStr (''($http_host !~* ^'' @ py_str server_name @ ''$)''),
             PList [tup [''return'', ''444'']]]"

definition base_config_http_common :: "pyval \<Rightarrow> bool \<Rightarrow> pyval list" where
  "base_config_http_common server_name strict_host =
     [tup [''listen'', ''80'', ''deferred'', ''reuseport''],
      tup [''listen'', ''[::]:80'', ''deferred'', ''reuseport''],
      PTuple [PStr ''server_name'', server_name]] @
     (if strict_host then [host_guard server_name] else [])"

definition base_config_https_redirect :: "pyval \<Rightarrow> bool \<Rightarrow> pyval list" where
  "base_config_https_redirect server_name strict_host =
     base_config_http_common server_name strict_host @
     [tup [''return'', ''301'', ''https://'' @ py_str server_name @ ''$request_uri'']]"

definition add_header :: "string \<times> string \<Rightarrow> pyval" where
  "add_header nv = tup [''add_header'', fst nv, snd nv, ''always'']"

definition base_config_http :: "pyval \<Rightarrow> bool \<Rightarrow> pyval list" where
  "base_config_http server_name strict_host =
     base_config_http_common server_name strict_host @ map add_header HTTP_HEADERS"

definition base_config_https :: "pyval \<Rightarrow> bool \<Rightarrow> pyval list" where
  "base_config_https server_name strict_host =
     [tup [''listen'', ''443'', ''ssl'', ''http2'', ''deferred'', ''reuseport''],
      tup [''listen'', ''[::]:443'', ''ssl'', ''http2'', ''deferred'', ''reuseport''],
      PTuple [PStr ''server_name'', server_name]] @
     (if strict_host then [host_guard server_name] else []) @
     map add_header HTTPS_HEADERS @
     [tup [''ssl_protocols'', ''TLSv1.2''],
      tup [''ssl_prefer_server_ciphers'', ''on''],
      tup [''ssl_ciphers'', join '':'' TLS_CIPHERS],
      tup [''ssl_dhparam'', ''/etc/ssl/dhparam-2048.pem''],
      tup [''ssl_session_timeout'', ''1d''],
      tup [''ssl_session_cache'', ''shared:SSL:50m''],
      tup [''ssl_session_tickets'', ''off''],
      tup [''ssl_stapling'', ''on''],
      tup [''ssl_stapling_verify'', ''on''],
      tup [''resolver'', ''8.8.8.8 8.8.4.4'', ''valid=300s''],
      tup [''resolver_timeout'', ''5s'']]"

text \<open>The local variables of \<^verbatim>\<open>generate_server\<close> that the loop over the items of
  the description sets.\<close>

record server_vars =
  sv_server_name :: pyval
  sv_tls :: pyval
  sv_check_host_header :: bool
  sv_extra_config :: "pyval list"

definition init_vars :: server_vars where
  "init_vars = \<lparr>sv_server_name = PNone, sv_tls = PNone, sv_check_host_header = True,
                 sv_extra_config = []\<rparr>"

text \<open>The body of the loop over \<^verbatim>\<open>description.items()\<close>, for one item.\<close>

definition server_item :: "string \<Rightarrow> string \<Rightarrow> pyval \<Rightarrow> server_vars \<Rightarrow> error + server_vars" where
  "server_item name item content vs =
     (if item = ''server_raw_options'' then
        (case content of
           PList options \<Rightarrow>
             bindE (mapE py_split options) (\<lambda>splits.
               Inr (vs\<lparr>sv_extra_config :=
                         sv_extra_config vs @ map (\<lambda>parts. PList (map PStr parts)) splits\<rparr>))
         | _ \<Rightarrow> Inl (Exception (name @ ''.server_raw_options must be an array'')))
      else if item = ''server_name'' then
        Inr (vs\<lparr>sv_server_name := content\<rparr>)
      else if item = ''static_files'' then
        bindE (generate_static_files content) (\<lambda>mounts.
          Inr (vs\<lparr>sv_extra_config := sv_extra_config vs @ mounts\<rparr>))
      else if item = ''tls'' then
        Inr (vs\<lparr>sv_tls := content\<rparr>)
      else if item = ''check_host_header'' then
        (case content of
           PBool b \<Rightarrow> Inr (vs\<lparr>sv_check_host_header := b\<rparr>)
         | _ \<Rightarrow> Inl (Exception (name @ ''.check_host_header must be a boolean value'')))
      else if item = ''upstream'' then
        Inr vs
      else Inl (Exception (''unknown option '' @ name @ ''.'' @ item)))"

fun server_items :: "string \<Rightarrow> (string \<times> pyval) list \<Rightarrow> server_vars \<Rightarrow> error + server_vars" where
  "server_items name [] vs = Inr vs"
| "server_items name ((item, content) # rest) vs =
     bindE (server_item name item content vs) (server_items name rest)"

text \<open>The chain of tests on \<^verbatim>\<open>tls\<close>: the result is \<^verbatim>\<open>use_tls\<close>, what the branch
  adds to \<^verbatim>\<open>extra_config\<close>, and the state.\<close>

definition resolve_tls ::
  "string \<Rightarrow> pyval \<Rightarrow> pyval \<Rightarrow> state \<Rightarrow> error + (bool \<times> pyval list \<times> state)" where
  "resolve_tls name server_name tls st =
     (if tls = PBool False then Inr (False, [], st)
      else if tls = PStr ''auto'' then
        bindE (activate_lets_encrypt server_name st) (\<lambda>(cert, st').
        bindE (generate_tls_config cert) (\<lambda>config.
          Inr (True,
               config @ [PTuple [PStr ''location'', PStr ''/.well-known/acme-challenge'',
                                 PList [tup [''root'', ''/var/www/letsencrypt'']]]],
               st')))
      else if isinstance_dict tls then
        bindE (generate_tls_config tls) (\<lambda>config. Inr (True, config, st))
      else (case tls of
        PList certs \<Rightarrow>
          bindE (mapE generate_tls_config certs) (\<lambda>configs. Inr (True, concat configs, st))
      | _ \<Rightarrow> Inl (Exception (name @ ''.tls value is invalid''))))"

text \<open>The body of the loop \<^verbatim>\<open>for upstream in upstreams\<close>.\<close>

definition proxy_location :: "upstream \<Rightarrow> error + pyval" where
  "proxy_location u =
     (let config =
        [tup [''proxy_set_header'', ''X-Request-ID'', ''$request_id''],
         tup [''proxy_set_header'', ''X-Forwarded-For'', ''$proxy_add_x_forwarded_for''],
         tup [''proxy_set_header'', ''Host'', ''$http_host'']]
      in
      bindE
        (if up_type u = ''uwsgi'' then
           Inr (config @ [tup [''include'', ''uwsgi_params''], PTuple [PStr ''uwsgi_pass'', up_name u]])
         else if up_type u = ''http'' then
           Inr (config @ [tup [''proxy_pass'', ''http://'' @ py_str (up_name u)]])
         else Inl (NotImplementedError
                (''Someone was naughty and did not implement the '' @ up_type u @ '' upstream type'')))
        (\<lambda>config. Inr (PTuple [PStr ''location'', up_location u, PList config])))"

definition generate_server ::
  "string \<Rightarrow> pyval \<Rightarrow> upstream list \<Rightarrow> state \<Rightarrow> error + (pyval list \<times> state)" where
  "generate_server name description upstreams st =
     bindE (py_items description) (\<lambda>items.
     bindE (server_items name items init_vars) (\<lambda>vs.
     if \<not> truthy (sv_server_name vs) then Inl (Exception ''server_name is required'') else
     bindE (resolve_tls name (sv_server_name vs) (sv_tls vs) st) (\<lambda>(use_tls, tls_config, st').
     bindE (mapE proxy_location upstreams) (\<lambda>locations.
     let extra_config = sv_extra_config vs @ tls_config @ locations;
         server_name = sv_server_name vs;
         check_host_header = sv_check_host_header vs
     in
     Inr (if use_tls
          then [PTuple [PStr ''server'',
                  PList ([tup [''#'', name, ''- force HTTPS'']] @
                         base_config_https_redirect server_name check_host_header)],
                PTuple [PStr ''server'',
                  PList ([tup [''#'', name]] @
                         base_config_https server_name check_host_header @ extra_config)]]
          else [PTuple [PStr ''server'',
                  PList ([tup [''#'', name]] @
                         base_config_http server_name check_host_header @ extra_config)]],
          st')))))"



section \<open>Global HTTP settings\<close>

text \<open>\<^verbatim>\<open>option[0]\<close>.\<close>

fun py_item0 :: "pyval \<Rightarrow> error + pyval" where
  "py_item0 (PList xs) = (case xs of [] \<Rightarrow> Inl IndexError | x # _ \<Rightarrow> Inr x)"
| "py_item0 (PTuple xs) = (case xs of [] \<Rightarrow> Inl IndexError | x # _ \<Rightarrow> Inr x)"
| "py_item0 (PStr s) = (case s of [] \<Rightarrow> Inl IndexError | c # _ \<Rightarrow> Inr (PStr [c]))"
| "py_item0 (PDict kvs) = Inl (KeyError ''0'')"
| "py_item0 _ = Inl TypeError"

text \<open>
  The loop \<^verbatim>\<open>for idx, option in enumerate(http)\<close> from index \<open>idx\<close> on: the first option
  whose first element equals \<^verbatim>\<open>parts[0]\<close> is overwritten and the loop left; the
  \<^verbatim>\<open>else\<close> of the loop appends.
\<close>

function http_scan :: "pyval list \<Rightarrow> pyval \<Rightarrow> pyval \<Rightarrow> nat \<Rightarrow> error + pyval list" where
  "http_scan http parts p0 idx =
     (if idx < length http then
        bindE (py_item0 (http ! idx)) (\<lambda>k.
          if k = p0 then Inr (http[idx := parts])
          else http_scan http parts p0 (idx + 1))
      else Inr (http @ [parts]))"
  by pat_completeness auto
termination
  by (relation "measure (\<lambda>(http, parts, p0, idx). length http - idx)") auto

fun http_entries :: "pyval list \<Rightarrow> pyval list \<Rightarrow> error + pyval list" where
  "http_entries [] http = Inr http"
| "http_entries (entry # rest) http =
     bindE (py_split entry) (\<lambda>parts.
       (case parts of
          [] \<Rightarrow> Inl IndexError
        | p0 # _ \<Rightarrow>
            if p0 = ''include'' then http_entries rest (http @ [PList (map PStr parts)])
            else bindE (http_scan http (PList (map PStr parts)) (PStr p0) 0) (http_entries rest)))"

definition generate_http :: "pyval \<Rightarrow> error + pyval list" where
  "generate_http app_conf =
     bindE (py_get app_conf ''http_raw_options'' (PList [])) (\<lambda>raw.
     bindE (py_iter raw) (\<lambda>entries. http_entries entries NGINX_HTTP))"

section \<open>The run\<close>



section \<open>Predicates of the statements\<close>

text \<open>An upstream record whose protocol \<^verbatim>\<open>generate_server\<close> implements, a table of
  such records, and a result that is the \<^verbatim>\<open>NotImplementedError\<close>.\<close>

definition good_type :: "upstream \<Rightarrow> bool" where
  "good_type u = (up_type u = ''http'' \<or> up_type u = ''uwsgi'')"

definition good_configs :: "(string \<times> upstream list) list \<Rightarrow> bool" where
  "good_configs cfgs = (\<forall>k us u. (k, us) \<in> set cfgs \<longrightarrow> u \<in> set us \<longrightarrow> good_type u)"

definition raises_nie :: "error + 'a \<Rightarrow> bool" where
  "raises_nie r = (\<exists>m. r = Inl (NotImplementedError m))"

text \<open>
  The upstream entries of a document in the order \<^verbatim>\<open>parse_upstreams\<close> meets them (server
  by server, entry by entry), the entries without an explicit name, and the name with the
  counter value \<open>n\<close>.
\<close>

definition anonymous :: "pyval \<Rightarrow> bool" where
  "anonymous entry = (case entry of PDict kvs \<Rightarrow> ''name'' \<notin> set (map fst kvs) | _ \<Rightarrow> False)"

definition unshared :: "pyval \<Rightarrow> bool" where
  "unshared entry = (case entry of PRef _ \<Rightarrow> False | _ \<Rightarrow> True)"

definition anon_count :: "pyval list \<Rightarrow> nat" where
  "anon_count es = length (filter anonymous es)"

definition auto_name :: "int \<Rightarrow> pyval" where
  "auto_name n = PStr (''upstream-auto-'' @ str_int n)"

definition upstream_entries :: "pyval \<Rightarrow> pyval list" where
  "upstream_entries server_config =
     (case py_contains ''upstream'' server_config of
        Inr True \<Rightarrow>
          (case py_getitem server_config ''upstream'' of
             Inr config \<Rightarrow>
               if isinstance_str config \<or> isinstance_dict config then [config]
               else (case py_iter config of Inr es \<Rightarrow> es | Inl _ \<Rightarrow> [])
           | Inl _ \<Rightarrow> [])
      | _ \<Rightarrow> [])"

definition document_entries :: "pyval \<Rightarrow> pyval list" where
  "document_entries doc =
     (case py_get doc ''servers'' (PDict []) of
        Inr servers \<Rightarrow>
          (case py_items servers of
             Inr items \<Rightarrow> concat (map (\<lambda>kv. upstream_entries (snd kv)) items)
           | Inl _ \<Rightarrow> [])
      | Inl _ \<Rightarrow> [])"


definition guard_free :: "pyval list \<Rightarrow> bool" where
  "guard_free xs = (\<forall>d. host_guard d \<notin> set xs)"

definition returns :: "('a \<Rightarrow> bool) \<Rightarrow> error + 'a \<Rightarrow> bool" where
  "returns P m = (\<forall>y. m = Inr y \<longrightarrow> P y)"

subsection \<open>The merge of the raw HTTP options, as stated\<close>

text \<open>
  The merge in the words of the statement, to be compared with \<open>generate_http\<close>: an entry
  is cut into tokens; a first token \<^verbatim>\<open>include\<close> appends the entry; otherwise the first
  option of the table with the same first token is replaced where it stands, and the entry
  is appended when there is none. How an entry is cut is a parameter. \<open>whitespace_split\<close>
  is the splitting at whitespace (\<^verbatim>\<open>s.split()\<close>: runs of blanks, tabs and line ends
  separate, and no token is empty); the code cuts with \<open>split_space\<close>.
\<close>

definition is_space :: "char \<Rightarrow> bool" where
  "is_space c = (c \<in> set [CHR '' '', CHR 0x09, CHR 0x0A, CHR 0x0B, CHR 0x0C, CHR 0x0D,
                            CHR 0x1C, CHR 0x1D, CHR 0x1E, CHR 0x1F])"

fun split_at :: "(char \<Rightarrow> bool) \<Rightarrow> string \<Rightarrow> string list" where
  "split_at sep [] = [[]]"
| "split_at sep (c # s) =
     (if sep c then [] # split_at sep s
      else (case split_at sep s of [] \<Rightarrow> [[c]] | w # ws \<Rightarrow> (c # w) # ws))"

definition whitespace_split :: "string \<Rightarrow> string list" where
  "whitespace_split s = filter (\<lambda>w. w \<noteq> []) (split_at is_space s)"

fun first_token :: "pyval \<Rightarrow> pyval option" where
  "first_token (PList (x # xs)) = Some x"
| "first_token (PTuple (x # xs)) = Some x"
| "first_token _ = None"

fun find_first :: "('a \<Rightarrow> bool) \<Rightarrow> 'a list \<Rightarrow> nat option" where
  "find_first P [] = None"
| "find_first P (x # xs) = (if P x then Some 0 else map_option Suc (find_first P xs))"

definition line :: "string list \<Rightarrow> pyval" where
  "line tokens = PList (map PStr tokens)"

fun merge_option :: "string list \<Rightarrow> pyval list \<Rightarrow> pyval list" where
  "merge_option [] http = http"
| "merge_option (t # ts) http =
     (if t = ''include'' then http @ [line (t # ts)]
      else (case find_first (\<lambda>option. first_token option = Some (PStr t)) http of
              Some i \<Rightarrow> http[i := line (t # ts)]
            | None \<Rightarrow> http @ [line (t # ts)]))"

definition merge_raw_options :: "(string \<Rightarrow> string list) \<Rightarrow> string list \<Rightarrow> pyval list" where
  "merge_raw_options split entries =
     foldl (\<lambda>http entry. merge_option (split entry) http) NGINX_HTTP entries"

text \<open>The options that are \<^verbatim>\<open>include\<close> lines, the first tokens of the others, and an
  option that has a first token.\<close>

definition is_include :: "pyval \<Rightarrow> bool" where
  "is_include option = (first_token option = Some (PStr ''include''))"

definition option_keys :: "pyval list \<Rightarrow> pyval option list" where
  "option_keys http = filter (\<lambda>k. k \<noteq> Some (PStr ''include'')) (map first_token http)"

definition wf_line :: "pyval \<Rightarrow> bool" where
  "wf_line option = (first_token option \<noteq> None)"

section \<open>The serializer renders the directive tree\<close>

lemma mapE_the_str: "mapE the_str (map PStr toks) = Inr toks"
  by (induction toks) auto

lemma py_join_tokens: "py_join (map PStr toks) = Inr (join '' '' toks)"
  by (simp add: py_join_def mapE_the_str)

lemma py_seq_mk_seq: "py_seq (mk_seq k xs) = Inr xs"
  by (cases k) auto

lemma hd_tokens_comment: "toks \<noteq> [] \<Longrightarrow> (hd (map PStr toks) = PStr ''#'') = is_comment toks"
  by (cases toks) (auto simp: is_comment_def)

lemma emit_render:
  "\<forall>d \<in> set ds. wf_directive d \<Longrightarrow>
   emit_nginx_conf (map to_py ds) indent = (render ds indent, None)"
proof (induction ds indent rule: render.induct)
  case (1 indent)
  then show ?case by simp
next
  case (2 k toks blk rest indent)
  show ?case
  proof (cases blk)
    case None
    with 2 have ne: "toks \<noteq> []" by simp
    from ne have lst: "last (map PStr toks) = PStr (last toks)" by (simp add: last_map)
    from 2 None have "emit_nginx_conf (map to_py rest) indent = (render rest indent, None)"
      by (cases "is_comment toks") auto
    with None ne lst show ?thesis
      by (simp add: py_join_tokens py_seq_mk_seq hd_tokens_comment)
  next
    case (Some children)
    with 2 have nc: "\<not> is_comment toks" and wc: "\<forall>d \<in> set children. wf_directive d"
      by auto
    from 2 nc Some wc
    have a: "emit_nginx_conf (map to_py children) (indent + 2) = (render children (indent + 2), None)"
      by simp
    from 2 nc have b: "emit_nginx_conf (map to_py rest) indent = (render rest indent, None)"
      by simp
    have bl: "butlast (map PStr toks @ [PList (map to_py children)]) = map PStr toks"
      by (simp add: butlast_append)
    from Some nc a b show ?thesis
      by (simp add: py_join_tokens py_seq_mk_seq bl)
  qed
qed

lemma white_deeper: "\<exists>r. white (indent + 2) = white indent @ r"
proof -
  have "nat (indent + 2) = nat indent + (nat (indent + 2) - nat indent)" by simp
  then have "white (indent + 2) =
      white indent @ replicate (nat (indent + 2) - nat indent) CHR '' ''"
    unfolding white_def by (metis replicate_add)
  then show ?thesis by blast
qed

lemma render_prefix:
  "l \<in> set (render ds indent) \<Longrightarrow> \<exists>r. l = white indent @ r"
proof (induction ds indent arbitrary: l rule: render.induct)
  case (1 indent)
  then show ?case by simp
next
  case (2 k toks blk rest indent)
  show ?case
  proof (cases "l \<in> set (render rest indent)")
    case True
    with 2 show ?thesis by simp
  next
    case False
    note notrest = False
    show ?thesis
    proof (cases "is_comment toks")
      case True
      with 2 notrest show ?thesis by auto
    next
      case False
      note nc = False
      show ?thesis
      proof (cases blk)
        case None
        with 2 nc notrest show ?thesis by auto
      next
        case (Some children)
        with 2 nc notrest consider
            "l = white indent @ join '' '' toks @ '' {''"
          | "l \<in> set (render children (indent + 2))"
          | "l = white indent @ ''}''"
          by auto
        then show ?thesis
        proof cases
          case 1
          then show ?thesis by blast
        next
          case 2
          with "2.IH"(1) nc Some obtain r where r: "l = white (indent + 2) @ r" by blast
          obtain r' where "white (indent + 2) = white indent @ r'"
            using white_deeper by blast
          with r have "l = white indent @ (r' @ r)" by simp
          then show ?thesis by blast
        next
          case 3
          then show ?thesis by blast
        qed
      qed
    qed
  qed
qed

text \<open>
  C2. For every directive tree of the data model (a statement has a first token, a comment
  is never block-valued), in tuple or list form, and every indent, \<^verbatim>\<open>emit_nginx_conf\<close>
  raises nothing and prints exactly the rendering the specification describes: a comment
  as its tokens joined by spaces with no terminator, a block as its non-final tokens joined
  followed by \<^verbatim>\<open> {\<close>, its children at indent + 2 and a closing \<^verbatim>\<open>}\<close> at the current
  indent, any other directive as its tokens joined followed by one \<^verbatim>\<open>;\<close>; and every
  printed line starts with the indent as a literal prefix of spaces.
\<close>

theorem emit_nginx_conf_renders:
  "\<forall>d \<in> set ds. wf_directive d \<Longrightarrow>
   emit_nginx_conf (map to_py ds) indent = (render ds indent, None) \<and>
   (\<forall>l \<in> set (fst (emit_nginx_conf (map to_py ds) indent)). \<exists>r. l = white indent @ r)"
proof -
  assume wf: "\<forall>d \<in> set ds. wf_directive d"
  then have e: "emit_nginx_conf (map to_py ds) indent = (render ds indent, None)"
    by (rule emit_render)
  moreover have "\<forall>l \<in> set (render ds indent). \<exists>r. l = white indent @ r"
    using render_prefix by blast
  ultimately show ?thesis by simp
qed

theorem emit_nginx_conf_renders_witness:
  "emit_nginx_conf
     [PTuple [PStr ''#'', PStr ''app''],
      PTuple [PStr ''server'',
        PList [PList [PStr ''client_max_body_size'', PStr ''10m''],
               PTuple [PStr ''if'', PStr ''($bad)'', PList [PTuple [PStr ''return'', PStr ''444'']]]]]]
     2 =
   ([''  # app'',
     ''  server {'',
     ''    client_max_body_size 10m;'',
     ''    if ($bad) {'',
     ''      return 444;'',
     ''    }'',
     ''  }''], None)"
proof -
  let ?ds = "[Directive AsTuple [''#'', ''app''] None,
              Directive AsTuple [''server'']
                (Some [Directive AsList [''client_max_body_size'', ''10m''] None,
                       Directive AsTuple [''if'', ''($bad)'']
                         (Some [Directive AsTuple [''return'', ''444''] None])])]"
  have wf: "\<forall>d \<in> set ?ds. wf_directive d"
    by (simp add: is_comment_def)
  have "emit_nginx_conf (map to_py ?ds) 2 = (render ?ds 2, None)"
    using emit_nginx_conf_renders [OF wf, of 2] by blast
  then show ?thesis
    by (simp del: emit_nginx_conf.simps add: is_comment_def white_def eval_nat_numeral)
qed

section \<open>Static file mounts: the default location and the exclusion of spa and index\<close>

lemma map_of_in_keys: "map_of kvs k = Some v \<Longrightarrow> k \<in> set (map fst kvs)"
  by (metis map_of_eq_None_iff option.distinct(1) set_map)

lemma getitem_present: "k \<in> set (map fst kvs) \<Longrightarrow> \<exists>v. py_getitem (PDict kvs) k = Inr v"
  by (cases "map_of kvs k") (auto simp: map_of_eq_None_iff)

text \<open>
  C3, as the claim states it, fails: a mount given as a mapping with only \<^verbatim>\<open>path\<close> is
  refused by the explicit check \<^verbatim>\<open>'location' not in description\<close>.
\<close>

theorem static_location_counterexample:
  "generate_static_files_entry (PDict [(''path'', PStr ''/srv/www'')]) =
   Inl (Exception ''location is required for static files'')"
  by (simp add: generate_static_files_entry_def)

text \<open>
  C3, amended. The location defaults to \<^verbatim>\<open>/static\<close> for a mount written as a bare path
  string: it yields a location block at \<^verbatim>\<open>/static\<close> that aliases the path, with no
  \<^verbatim>\<open>try_files\<close> or \<^verbatim>\<open>index\<close> entry. A mount written as a mapping without
  \<^verbatim>\<open>location\<close> fails with the error that the location is required.
\<close>

theorem static_location_default:
  "generate_static_files_entry (PStr p) =
     Inr (PTuple [PStr ''location'', PStr ''/static'', PList [PTuple [PStr ''alias'', PStr p]]]) \<and>
   (''location'' \<notin> set (map fst kvs) \<longrightarrow>
     generate_static_files_entry (PDict kvs) =
       Inl (Exception ''location is required for static files''))"
  by (simp add: generate_static_files_entry_def)

theorem static_location_default_witness:
  "generate_static_files_entry (PStr ''/srv/www'') =
     Inr (PTuple [PStr ''location'', PStr ''/static'',
            PList [PTuple [PStr ''alias'', PStr ''/srv/www'']]]) \<and>
   generate_static_files_entry
     (PDict [(''path'', PStr ''/srv/www''), (''index'', PStr ''index.html'')]) =
     Inl (Exception ''location is required for static files'')"
  using static_location_default
    [of "''/srv/www''" "[(''path'', PStr ''/srv/www''), (''index'', PStr ''index.html'')]"]
  by simp

text \<open>
  C5, as the claim states it, fails for the empty string: \<^verbatim>\<open>if spa:\<close> takes an empty
  \<^verbatim>\<open>spa\<close> as not set, and the mount with \<^verbatim>\<open>index\<close> is generated.
\<close>

theorem spa_index_counterexample:
  "generate_static_files_entry
     (PDict [(''path'', PStr ''/srv/www''), (''location'', PStr ''/app''),
             (''spa'', PStr ''''), (''index'', PStr ''index.html'')]) =
   Inr (PTuple [PStr ''location'', PStr ''/app'',
          PList [PTuple [PStr ''alias'', PStr ''/srv/www''],
                 PTuple [PStr ''index'', PStr ''index.html'']]])"
  by (simp add: generate_static_files_entry_def isinstance_str_def)

text \<open>
  C5, amended. For every static mount mapping in which \<^verbatim>\<open>spa\<close> is a non-empty string and
  \<^verbatim>\<open>index\<close> is set, generation fails and produces no fragment; when \<^verbatim>\<open>location\<close>
  and \<^verbatim>\<open>path\<close> are present, the failure is the mutual-exclusion error.
\<close>

theorem spa_index_exclusive:
  assumes spa: "map_of kvs ''spa'' = Some (PStr s)" and ne: "s \<noteq> []"
    and idx: "''index'' \<in> set (map fst kvs)"
  shows "(\<exists>e. generate_static_files_entry (PDict kvs) = Inl e) \<and>
         (''location'' \<in> set (map fst kvs) \<and> ''path'' \<in> set (map fst kvs) \<longrightarrow>
            generate_static_files_entry (PDict kvs) =
              Inl (Exception ''cannot use both spa and index options in static files''))"
proof -
  from spa have k: "''spa'' \<in> set (map fst kvs)" by (rule map_of_in_keys)
  show ?thesis
  proof (cases "''location'' \<in> set (map fst kvs)")
    case False
    then show ?thesis by (simp add: generate_static_files_entry_def)
  next
    case True
    note loc = True
    show ?thesis
    proof (cases "''path'' \<in> set (map fst kvs)")
      case False
      with loc show ?thesis by (simp add: generate_static_files_entry_def)
    next
      case True
      then obtain p where p: "py_getitem (PDict kvs) ''path'' = Inr p"
        using getitem_present by blast
      from p have p': "(case map_of kvs ''path'' of None \<Rightarrow> Inl (KeyError ''path'')
                         | Some v \<Rightarrow> Inr v) = Inr p"
        by simp
      from loc True k spa ne idx p' have
        "generate_static_files_entry (PDict kvs) =
           Inl (Exception ''cannot use both spa and index options in static files'')"
        by (simp add: generate_static_files_entry_def isinstance_str_def del: set_map)
      then show ?thesis by simp
    qed
  qed
qed

theorem spa_index_exclusive_witness:
  "generate_static_files_entry
     (PDict [(''path'', PStr ''/srv/www''), (''location'', PStr ''/app''),
             (''spa'', PStr ''/index.html''), (''index'', PStr ''index.html'')]) =
   Inl (Exception ''cannot use both spa and index options in static files'')"
  using spa_index_exclusive
    [of "[(''path'', PStr ''/srv/www''), (''location'', PStr ''/app''),
          (''spa'', PStr ''/index.html''), (''index'', PStr ''index.html'')]" "''/index.html''"]
  by simp

section \<open>Upstream entries: location, names and protocol\<close>

lemma bindE_Inr: "bindE m f = Inr y \<longleftrightarrow> (\<exists>x. m = Inr x \<and> f x = Inr y)"
  by (cases m) auto

lemma bindE_Inl: "bindE m f = Inl e \<longleftrightarrow> (m = Inl e \<or> (\<exists>x. m = Inr x \<and> f x = Inl e))"
  by (cases m) auto

lemma map_of_dict_set:
  "map_of (dict_set kvs k v) k' = (if k' = k then Some v else map_of kvs k')"
  by (induction kvs k v rule: dict_set.induct) auto

text \<open>
  C4, as the claim states it, fails: a mapping entry without \<^verbatim>\<open>location\<close> raises the
  \<^verbatim>\<open>KeyError\<close> of \<^verbatim>\<open>config['location']\<close>.
\<close>

theorem upstream_location_counterexample:
  "parse_single_upstream ''app'' (PDict [(''url'', PStr ''http://backend:8000'')])
     \<lparr>upstream_counter = 0, le_domain_txt = None, shared = []\<rparr> =
   Inl (KeyError ''location'')"
  by (simp add: parse_single_upstream_def isinstance_str_def)

lemma parse_single_upstream_named:
  "''name'' \<in> set (map fst kvs) \<Longrightarrow>
   parse_single_upstream sn (PDict kvs) st =
     bindE (py_getitem (PDict kvs) ''name'') (\<lambda>name.
     bindE (py_getitem (PDict kvs) ''location'') (\<lambda>location.
     bindE (match_proto sn (PDict kvs) name location [''http'', ''uwsgi''])
       (\<lambda>upstream. Inr (upstream, st))))"
  by (simp add: parse_single_upstream_def isinstance_str_def Let_def
           del: set_map py_getitem.simps match_proto.simps)

lemma parse_single_upstream_anon:
  "''name'' \<notin> set (map fst kvs) \<Longrightarrow>
   parse_single_upstream sn (PDict kvs) st =
     bindE (py_getitem (PDict (dict_set kvs ''name''
              (PStr (''upstream-auto-'' @ str_int (upstream_counter st + 1))))) ''location'')
       (\<lambda>location.
     bindE (match_proto sn (PDict (dict_set kvs ''name''
              (PStr (''upstream-auto-'' @ str_int (upstream_counter st + 1)))))
              (PStr (''upstream-auto-'' @ str_int (upstream_counter st + 1))) location
              [''http'', ''uwsgi''])
       (\<lambda>upstream. Inr (upstream, st\<lparr>upstream_counter := upstream_counter st + 1\<rparr>)))"
  by (simp add: parse_single_upstream_def isinstance_str_def Let_def map_of_dict_set
           del: set_map match_proto.simps)

lemma parse_single_upstream_str:
  "parse_single_upstream sn (PStr u) st =
     (if take 7 u = ''http://'' then
        Inr (\<lparr>up_name = PStr (sn @ ''-upstream''), up_location = PStr ''/'',
              up_url = drop 7 u, up_type = ''http''\<rparr>, st)
      else if take 8 u = ''uwsgi://'' then
        Inr (\<lparr>up_name = PStr (sn @ ''-upstream''), up_location = PStr ''/'',
              up_url = drop 8 u, up_type = ''uwsgi''\<rparr>, st)
      else Inl (Exception (''Please prefix '' @ sn @ ''.upstream url with protocol name'')))"
  by (simp add: parse_single_upstream_def isinstance_str_def py_str_def eval_nat_numeral)

lemma match_proto_fields:
  "match_proto sn config name location protos = Inr u \<Longrightarrow>
   up_name u = name \<and> up_location u = location \<and> up_type u \<in> set protos"
  by (induction protos) (auto simp: bindE_Inr split: if_splits)

lemma parse_single_upstream_other:
  "\<not> isinstance_str c \<Longrightarrow> \<not> isinstance_dict c \<Longrightarrow> \<exists>e. parse_single_upstream sn c st = Inl e"
  by (cases c)
     (auto simp: parse_single_upstream_def isinstance_str_def isinstance_dict_def Let_def)

text \<open>
  C4, amended. The location defaults to \<^verbatim>\<open>/\<close> for an entry written as a bare URL string
  (with one of the two protocol prefixes, the entry resolves to an upstream record with
  location \<^verbatim>\<open>/\<close>). A mapping entry has to give \<^verbatim>\<open>location\<close>: without it the entry
  fails with \<^verbatim>\<open>KeyError\<close>, and a mapping entry that resolves carries the location it
  gives.
\<close>

theorem upstream_location_default:
  "(take 7 u = ''http://'' \<or> take 8 u = ''uwsgi://'' \<longrightarrow>
      (\<exists>r. parse_single_upstream sn (PStr u) st = Inr (r, st) \<and> up_location r = PStr ''/'')) \<and>
   (''location'' \<notin> set (map fst kvs) \<longrightarrow>
      parse_single_upstream sn (PDict kvs) st = Inl (KeyError ''location'')) \<and>
   (\<forall>r st'. parse_single_upstream sn (PDict kvs) st = Inr (r, st') \<longrightarrow>
      map_of kvs ''location'' = Some (up_location r))"
proof (intro conjI impI allI)
  assume "take 7 u = ''http://'' \<or> take 8 u = ''uwsgi://''"
  then show "\<exists>r. parse_single_upstream sn (PStr u) st = Inr (r, st) \<and> up_location r = PStr ''/''"
    by (auto simp: parse_single_upstream_str)
next
  assume nl: "''location'' \<notin> set (map fst kvs)"
  then have l: "map_of kvs ''location'' = None" by (simp add: map_of_eq_None_iff)
  show "parse_single_upstream sn (PDict kvs) st = Inl (KeyError ''location'')"
  proof (cases "''name'' \<in> set (map fst kvs)")
    case True
    then obtain v where "py_getitem (PDict kvs) ''name'' = Inr v"
      by (cases "map_of kvs ''name''") (auto simp: map_of_eq_None_iff)
    with True l show ?thesis
      by (simp add: parse_single_upstream_named del: set_map)
  next
    case False
    with l show ?thesis
      by (simp add: parse_single_upstream_anon map_of_dict_set del: set_map)
  qed
next
  fix r st'
  assume ok: "parse_single_upstream sn (PDict kvs) st = Inr (r, st')"
  show "map_of kvs ''location'' = Some (up_location r)"
  proof (cases "''name'' \<in> set (map fst kvs)")
    case True
    with ok show ?thesis
      by (auto simp: parse_single_upstream_named bindE_Inr split: option.splits
               dest: match_proto_fields simp del: set_map match_proto.simps)
  next
    case False
    with ok show ?thesis
      by (auto simp: parse_single_upstream_anon bindE_Inr map_of_dict_set split: option.splits
               dest: match_proto_fields simp del: set_map match_proto.simps)
  qed
qed

theorem upstream_location_default_witness:
  "(\<exists>r. parse_single_upstream ''app'' (PStr ''http://backend:8000'')
           \<lparr>upstream_counter = 0, le_domain_txt = None, shared = []\<rparr> =
          Inr (r, \<lparr>upstream_counter = 0, le_domain_txt = None, shared = []\<rparr>) \<and> up_location r = PStr ''/'') \<and>
   parse_single_upstream ''app'' (PDict [(''url'', PStr ''http://backend:8000''), (''name'', PStr ''api'')])
     \<lparr>upstream_counter = 0, le_domain_txt = None, shared = []\<rparr> = Inl (KeyError ''location'')"
  using upstream_location_default
    [of "''http://backend:8000''" "''app''" "\<lparr>upstream_counter = 0, le_domain_txt = None, shared = []\<rparr>"
        "[(''url'', PStr ''http://backend:8000''), (''name'', PStr ''api'')]"]
  by simp

lemma parse_single_upstream_type:
  assumes "parse_single_upstream sn c st = Inr (u, st')"
  shows "good_type u"
proof -
  from assms obtain config name location where
    "match_proto sn config name location [''http'', ''uwsgi''] = Inr u"
    unfolding parse_single_upstream_def Let_def
    by (auto simp: bindE_Inr split: if_splits simp del: match_proto.simps py_getitem.simps)
  from match_proto_fields [OF this] show ?thesis by (simp add: good_type_def)
qed

lemma configs_append_good:
  "good_configs cfgs \<Longrightarrow> good_type u \<Longrightarrow> good_configs (configs_append cfgs k u)"
  by (induction cfgs k u rule: configs_append.induct)
     (auto simp: good_configs_def split: if_splits)

lemma parse_entries_good:
  "parse_entries sn es (ups, cfgs, st) = Inr (ups', cfgs', st') \<Longrightarrow> good_configs cfgs \<Longrightarrow>
   good_configs cfgs'"
proof (induction es arbitrary: ups cfgs st)
  case Nil
  then show ?case by simp
next
  case (Cons e es)
  from Cons.prems(1) obtain u st1 where
    u: "parse_single_upstream sn e st = Inr (u, st1)" and
    r: "parse_entries sn es (ups @ [upstream_block u], configs_append cfgs sn u, st1) =
          Inr (ups', cfgs', st')"
    by (auto simp: bindE_Inr)
  from u have "good_type u" by (rule parse_single_upstream_type)
  with Cons.prems(2) have "good_configs (configs_append cfgs sn u)"
    by (rule configs_append_good)
  with Cons.IH r show ?case by blast
qed

lemma parse_servers_good:
  "parse_servers items (ups, cfgs, st) = Inr (ups', cfgs', st') \<Longrightarrow> good_configs cfgs \<Longrightarrow>
   good_configs cfgs'"
proof (induction items arbitrary: ups cfgs st)
  case Nil
  then show ?case by simp
next
  case (Cons item items)
  obtain sn sc where item: "item = (sn, sc)" by (cases item)
  from Cons.prems(1) item obtain has where
    has: "py_contains ''upstream'' sc = Inr has" by (auto simp: bindE_Inr)
  show ?case
  proof (cases has)
    case False
    with Cons item has show ?thesis by (auto simp: bindE_Inr)
  next
    case True
    with Cons.prems(1) item has obtain es ups1 cfgs1 st1 where
      e: "parse_entries sn es (ups, cfgs, st) = Inr (ups1, cfgs1, st1)" and
      r: "parse_servers items (ups1, cfgs1, st1) = Inr (ups', cfgs', st')"
      by (auto simp: bindE_Inr Let_def)
    from e Cons.prems(2) have "good_configs cfgs1" by (rule parse_entries_good)
    with Cons.IH r show ?thesis by blast
  qed
qed

lemma parse_upstreams_good:
  "parse_upstreams doc st = Inr (ups, cfgs, st') \<Longrightarrow> good_configs cfgs"
  by (auto simp: parse_upstreams_def bindE_Inr good_configs_def
           dest!: parse_servers_good)

lemma proxy_location_good: "good_type u \<Longrightarrow> \<exists>l. proxy_location u = Inr l"
  by (auto simp: proxy_location_def good_type_def)

lemma mapE_all_Inr: "(\<forall>x \<in> set xs. \<exists>y. f x = Inr y) \<Longrightarrow> \<exists>ys. mapE f xs = Inr ys"
  by (induction xs) auto

lemma mapE_Inl: "mapE f xs = Inl e \<Longrightarrow> \<exists>x \<in> set xs. f x = Inl e"
  by (induction xs) (auto simp: bindE_Inl)


lemma raises_nie_simps [simp]:
  "\<not> raises_nie (Inr x)"
  "\<not> raises_nie (Inl (Exception s))"
  "\<not> raises_nie (Inl (KeyError s))"
  "\<not> raises_nie (Inl TypeError)"
  "\<not> raises_nie (Inl IndexError)"
  "\<not> raises_nie (Inl AttributeError)"
  by (simp_all add: raises_nie_def)

lemma raises_nie_bindE:
  "raises_nie (bindE m f) \<longleftrightarrow> raises_nie m \<or> (\<exists>x. m = Inr x \<and> raises_nie (f x))"
  by (cases m) (auto simp: raises_nie_def)

lemma raises_nie_mapE: "raises_nie (mapE f xs) \<Longrightarrow> \<exists>x \<in> set xs. raises_nie (f x)"
  by (induction xs) (auto simp: raises_nie_bindE)

lemma prim_no_nie [simp]:
  "\<not> raises_nie (py_contains k v)"
  "\<not> raises_nie (py_getitem v k)"
  "\<not> raises_nie (py_iter v)"
  "\<not> raises_nie (py_items v)"
  "\<not> raises_nie (py_split v)"
  "\<not> raises_nie (py_get v k d)"
  by (cases v; simp split: option.splits)+

lemma no_nie_bindE:
  "\<not> raises_nie m \<Longrightarrow> (\<And>x. \<not> raises_nie (f x)) \<Longrightarrow> \<not> raises_nie (bindE m f)"
  by (simp add: raises_nie_bindE)

lemma no_nie_if:
  "\<not> raises_nie a \<Longrightarrow> \<not> raises_nie b \<Longrightarrow> \<not> raises_nie (if c then a else b)"
  by simp

lemma no_nie_mapE: "(\<And>x. \<not> raises_nie (f x)) \<Longrightarrow> \<not> raises_nie (mapE f xs)"
  using raises_nie_mapE by blast

lemma static_entry_no_nie [simp]: "\<not> raises_nie (generate_static_files_entry d)"
  unfolding generate_static_files_entry_def Let_def
  by (intro no_nie_bindE no_nie_if) simp_all

lemma static_files_no_nie [simp]: "\<not> raises_nie (generate_static_files d)"
  unfolding generate_static_files_def Let_def
  by (intro no_nie_bindE no_nie_if no_nie_mapE) simp_all

lemma tls_config_no_nie [simp]: "\<not> raises_nie (generate_tls_config c)"
  unfolding generate_tls_config_def Let_def
  by (intro no_nie_bindE no_nie_if) simp_all

lemma activate_no_nie [simp]: "\<not> raises_nie (activate_lets_encrypt sn st)"
  by (simp add: activate_lets_encrypt_def split: pyval.splits)

lemma no_nie_case_prod:
  "(\<And>a b. \<not> raises_nie (f a b)) \<Longrightarrow> \<not> raises_nie (case p of (a, b) \<Rightarrow> f a b)"
  by (cases p) simp

lemma resolve_tls_no_nie [simp]: "\<not> raises_nie (resolve_tls name sn tls st)"
  unfolding resolve_tls_def
  by (cases tls; intro no_nie_bindE no_nie_if no_nie_mapE no_nie_case_prod)
     (simp_all add: raises_nie_bindE no_nie_mapE)

lemma server_item_no_nie [simp]: "\<not> raises_nie (server_item name k c vs)"
  unfolding server_item_def
  by (cases c; intro no_nie_bindE no_nie_if no_nie_mapE)
     (simp_all add: raises_nie_bindE no_nie_mapE)

lemma server_items_no_nie [simp]: "\<not> raises_nie (server_items name items vs)"
proof (induction items arbitrary: vs)
  case Nil
  then show ?case by simp
next
  case (Cons item items)
  obtain k c where item: "item = (k, c)" by (cases item)
  show ?case
    unfolding item server_items.simps using Cons.IH
    by (intro no_nie_bindE) simp_all
qed

lemma generate_server_nie:
  "raises_nie (generate_server name desc us st) \<Longrightarrow> \<exists>u \<in> set us. raises_nie (proxy_location u)"
proof (rule ccontr)
  assume r: "raises_nie (generate_server name desc us st)"
  assume "\<not> (\<exists>u \<in> set us. raises_nie (proxy_location u))"
  then have "\<not> raises_nie (mapE proxy_location us)"
    using raises_nie_mapE by blast
  then have "\<not> raises_nie (generate_server name desc us st)"
    unfolding generate_server_def Let_def
    by (intro no_nie_bindE no_nie_if no_nie_case_prod) simp_all
  with r show False by contradiction
qed


text \<open>
  C10. Every upstream record that \<^verbatim>\<open>parse_upstreams\<close> produces has the type
  \<^verbatim>\<open>http\<close> or \<^verbatim>\<open>uwsgi\<close>; so, on the list \<^verbatim>\<open>upstreams.get(name, [])\<close> of any
  server, the loop over the upstreams in \<^verbatim>\<open>generate_server\<close> completes without
  reaching the \<^verbatim>\<open>NotImplementedError\<close> branch, and \<^verbatim>\<open>generate_server\<close> never ends
  in that error.
\<close>

theorem upstream_types_implemented:
  assumes "parse_upstreams doc st = Inr (ups, cfgs, st')"
  shows "(\<forall>name us u. map_of cfgs name = Some us \<longrightarrow> u \<in> set us \<longrightarrow>
            up_type u = ''http'' \<or> up_type u = ''uwsgi'') \<and>
         (\<forall>name. \<exists>locations.
            mapE proxy_location (case map_of cfgs name of None \<Rightarrow> [] | Some us \<Rightarrow> us) =
              Inr locations) \<and>
         (\<forall>name description s m.
            generate_server name description
              (case map_of cfgs name of None \<Rightarrow> [] | Some us \<Rightarrow> us) s \<noteq>
              Inl (NotImplementedError m))"
proof -
  from assms have g: "good_configs cfgs" by (rule parse_upstreams_good)
  have good: "\<And>name u. u \<in> set (case map_of cfgs name of None \<Rightarrow> [] | Some us \<Rightarrow> us) \<Longrightarrow>
                good_type u"
  proof -
    fix name u
    assume u: "u \<in> set (case map_of cfgs name of None \<Rightarrow> [] | Some us \<Rightarrow> us)"
    then obtain us where us: "map_of cfgs name = Some us" and "u \<in> set us"
      by (cases "map_of cfgs name") auto
    moreover from us have "(name, us) \<in> set cfgs" by (rule map_of_SomeD)
    ultimately show "good_type u" using g by (auto simp: good_configs_def)
  qed
  have a: "\<forall>name us u. map_of cfgs name = Some us \<longrightarrow> u \<in> set us \<longrightarrow>
            up_type u = ''http'' \<or> up_type u = ''uwsgi''"
  proof (intro allI impI)
    fix name us u
    assume "map_of cfgs name = Some us" "u \<in> set us"
    then have "good_type u" using good [of u name] by simp
    then show "up_type u = ''http'' \<or> up_type u = ''uwsgi''" by (simp add: good_type_def)
  qed
  have b: "\<forall>name. \<exists>locations.
            mapE proxy_location (case map_of cfgs name of None \<Rightarrow> [] | Some us \<Rightarrow> us) =
              Inr locations"
    using good proxy_location_good by (intro allI mapE_all_Inr) blast
  have c: "\<forall>name description s m.
            generate_server name description
              (case map_of cfgs name of None \<Rightarrow> [] | Some us \<Rightarrow> us) s \<noteq>
              Inl (NotImplementedError m)"
  proof (intro allI notI)
    fix name description s m
    assume "generate_server name description
              (case map_of cfgs name of None \<Rightarrow> [] | Some us \<Rightarrow> us) s =
              Inl (NotImplementedError m)"
    then have "raises_nie (generate_server name description
              (case map_of cfgs name of None \<Rightarrow> [] | Some us \<Rightarrow> us) s)"
      by (simp add: raises_nie_def)
    then obtain u where u: "u \<in> set (case map_of cfgs name of None \<Rightarrow> [] | Some us \<Rightarrow> us)"
      and r: "raises_nie (proxy_location u)"
      using generate_server_nie by blast
    from u have "good_type u" by (rule good)
    then obtain l where "proxy_location u = Inr l" using proxy_location_good by blast
    with r show False by simp
  qed
  from a b c show ?thesis by blast
qed

theorem upstream_types_implemented_witness:
  "parse_upstreams
     (PDict [(''servers'',
        PDict [(''app'', PDict [(''server_name'', PStr ''example.com''),
                                (''upstream'', PStr ''uwsgi://app:3031'')])])])
     \<lparr>upstream_counter = 0, le_domain_txt = None, shared = []\<rparr> =
   Inr ([PTuple [PStr ''upstream'', PStr ''app-upstream'',
                 PList [PTuple [PStr ''server'', PStr ''app:3031'']]]],
        [(''app'', [\<lparr>up_name = PStr ''app-upstream'', up_location = PStr ''/'',
                       up_url = ''app:3031'', up_type = ''uwsgi''\<rparr>])],
        \<lparr>upstream_counter = 0, le_domain_txt = None, shared = []\<rparr>) \<and>
   (\<exists>locations.
      mapE proxy_location
        [\<lparr>up_name = PStr ''app-upstream'', up_location = PStr ''/'',
          up_url = ''app:3031'', up_type = ''uwsgi''\<rparr>] = Inr locations)"
proof -
  let ?u = "\<lparr>up_name = PStr ''app-upstream'', up_location = PStr ''/'',
             up_url = ''app:3031'', up_type = ''uwsgi''\<rparr>"
  have p: "parse_upstreams
     (PDict [(''servers'',
        PDict [(''app'', PDict [(''server_name'', PStr ''example.com''),
                                (''upstream'', PStr ''uwsgi://app:3031'')])])])
     \<lparr>upstream_counter = 0, le_domain_txt = None, shared = []\<rparr> =
   Inr ([PTuple [PStr ''upstream'', PStr ''app-upstream'',
                 PList [PTuple [PStr ''server'', PStr ''app:3031'']]]],
        [(''app'', [?u])],
        \<lparr>upstream_counter = 0, le_domain_txt = None, shared = []\<rparr>)"
    by (simp add: parse_upstreams_def parse_single_upstream_str isinstance_str_def
                  isinstance_dict_def upstream_block_def eval_nat_numeral)
  from upstream_types_implemented [OF p]
  have "\<exists>locations. mapE proxy_location
          (case map_of [(''app'', [?u])] ''app'' of None \<Rightarrow> [] | Some us \<Rightarrow> us) = Inr locations"
    by blast
  then have "\<exists>locations. mapE proxy_location [?u] = Inr locations"
    by (simp del: mapE.simps)
  with p show ?thesis by blast
qed

lemma digit_inj: "a < 10 \<Longrightarrow> b < 10 \<Longrightarrow> digit a = digit b \<Longrightarrow> a = b"
proof -
  have d: "distinct ''0123456789''" by simp
  have l: "length ''0123456789'' = 10" by simp
  assume "a < 10" "b < 10" "digit a = digit b"
  with d l show "a = b"
    unfolding digit_def by (metis nth_eq_iff_index_eq)
qed

lemma str_nat_ne: "str_nat n \<noteq> []"
  by (subst str_nat.simps) simp

lemma str_nat_big: "10 \<le> n \<Longrightarrow> str_nat n = str_nat (n div 10) @ [digit (n mod 10)]"
  by (subst str_nat.simps) simp

lemma str_nat_small: "n < 10 \<Longrightarrow> str_nat n = [digit n]"
  by (subst str_nat.simps) simp

lemma str_nat_inj: "str_nat m = str_nat n \<Longrightarrow> m = n"
proof (induction m arbitrary: n rule: less_induct)
  case (less m)
  show ?case
  proof (cases "m < 10")
    case True
    note m = True
    show ?thesis
    proof (cases "n < 10")
      case True
      with m less.prems show ?thesis by (simp add: str_nat_small digit_inj)
    next
      case False
      with m less.prems have "[digit m] = str_nat (n div 10) @ [digit (n mod 10)]"
        by (simp add: str_nat_small str_nat_big)
      then have "str_nat (n div 10) = []" by simp
      then show ?thesis by (simp add: str_nat_ne)
    qed
  next
    case False
    note m = False
    show ?thesis
    proof (cases "n < 10")
      case True
      with m less.prems have "str_nat (m div 10) @ [digit (m mod 10)] = [digit n]"
        by (simp add: str_nat_small str_nat_big)
      then have "str_nat (m div 10) = []" by simp
      then show ?thesis by (simp add: str_nat_ne)
    next
      case False
      with m less.prems have
        "str_nat (m div 10) @ [digit (m mod 10)] = str_nat (n div 10) @ [digit (n mod 10)]"
        by (simp add: str_nat_big)
      then have a: "str_nat (m div 10) = str_nat (n div 10)"
        and b: "digit (m mod 10) = digit (n mod 10)" by simp_all
      from m have "m div 10 < m" by simp
      with less.IH a have "m div 10 = n div 10" by blast
      moreover from b have "m mod 10 = n mod 10" by (simp add: digit_inj)
      ultimately have "10 * (m div 10) + m mod 10 = 10 * (n div 10) + n mod 10" by simp
      then show ?thesis by simp
    qed
  qed
qed

lemma auto_name_inj: "0 \<le> a \<Longrightarrow> 0 \<le> b \<Longrightarrow> auto_name a = auto_name b \<Longrightarrow> a = b"
  by (auto simp: auto_name_def str_int_def dest!: str_nat_inj)


lemma parse_single_upstream_anonymous:
  assumes "anonymous e" and "parse_single_upstream sn e st = Inr (u, st')"
  shows "up_name u = auto_name (upstream_counter st + 1) \<and>
         upstream_counter st' = upstream_counter st + 1"
proof -
  from assms(1) obtain kvs where e: "e = PDict kvs" and n: "''name'' \<notin> set (map fst kvs)"
    by (cases e) (auto simp: anonymous_def)
  from assms(2) e n show ?thesis
    by (auto simp: parse_single_upstream_anon bindE_Inr auto_name_def
             dest!: match_proto_fields simp del: set_map match_proto.simps py_getitem.simps)
qed

lemma parse_single_upstream_named_counter:
  assumes "\<not> anonymous e" and "parse_single_upstream sn e st = Inr (u, st')"
    and "unshared e"
  shows "upstream_counter st' = upstream_counter st"
proof (cases e)
  case (PStr s)
  with assms(2) show ?thesis
    by (auto simp: parse_single_upstream_str split: if_splits)
next
  case (PDict kvs)
  with assms(1) have "''name'' \<in> set (map fst kvs)" by (simp add: anonymous_def)
  with assms(2) PDict show ?thesis
    by (auto simp: parse_single_upstream_named bindE_Inr
             simp del: set_map match_proto.simps py_getitem.simps)
qed (use assms(2,3) parse_single_upstream_other [of e sn st] in
      \<open>auto simp: isinstance_str_def isinstance_dict_def unshared_def\<close>)

lemma anon_count_Cons:
  "anon_count (e # es) = (if anonymous e then Suc (anon_count es) else anon_count es)"
  by (simp add: anon_count_def)

lemma anon_count_append: "anon_count (xs @ ys) = anon_count xs + anon_count ys"
  by (simp add: anon_count_def)

lemma parse_entries_names:
  "parse_entries sn es (ups, cfgs, st) = Inr (ups', cfgs', st') \<Longrightarrow>
   \<forall>e \<in> set es. unshared e \<Longrightarrow>
   \<exists>us. ups' = ups @ map upstream_block us \<and> length us = length es \<and>
        upstream_counter st' = upstream_counter st + int (anon_count es) \<and>
        (\<forall>i < length es. anonymous (es ! i) \<longrightarrow>
           up_name (us ! i) = auto_name (upstream_counter st + 1 + int (anon_count (take i es))))"
proof (induction es arbitrary: ups cfgs st)
  case Nil
  then show ?case by (simp add: anon_count_def)
next
  case (Cons e es)
  from Cons.prems(1) obtain u st1 where
    u: "parse_single_upstream sn e st = Inr (u, st1)" and
    r: "parse_entries sn es (ups @ [upstream_block u], configs_append cfgs sn u, st1) =
          Inr (ups', cfgs', st')"
    by (auto simp: bindE_Inr)
  from Cons.prems(2) have ue: "unshared e" and ues: "\<forall>e \<in> set es. unshared e" by simp_all
  from Cons.IH [OF r ues] obtain us where
    us: "ups' = (ups @ [upstream_block u]) @ map upstream_block us" "length us = length es"
        "upstream_counter st' = upstream_counter st1 + int (anon_count es)"
        "\<forall>i < length es. anonymous (es ! i) \<longrightarrow>
           up_name (us ! i) = auto_name (upstream_counter st1 + 1 + int (anon_count (take i es)))"
    by blast
  have c1: "upstream_counter st1 = upstream_counter st + (if anonymous e then 1 else 0)"
    using u ue parse_single_upstream_anonymous parse_single_upstream_named_counter
    by (cases "anonymous e") auto
  have nm: "anonymous e \<Longrightarrow> up_name u = auto_name (upstream_counter st + 1)"
    using u parse_single_upstream_anonymous by blast
  have "\<forall>i < length (e # es). anonymous ((e # es) ! i) \<longrightarrow>
           up_name ((u # us) ! i) =
             auto_name (upstream_counter st + 1 + int (anon_count (take i (e # es))))"
  proof (intro allI impI)
    fix i
    assume i: "i < length (e # es)" and a: "anonymous ((e # es) ! i)"
    show "up_name ((u # us) ! i) =
            auto_name (upstream_counter st + 1 + int (anon_count (take i (e # es))))"
    proof (cases i)
      case 0
      with a nm show ?thesis by (simp add: anon_count_def)
    next
      case (Suc k)
      with i a us(4) have
        "up_name (us ! k) = auto_name (upstream_counter st1 + 1 + int (anon_count (take k es)))"
        by simp
      with Suc c1 show ?thesis by (simp add: anon_count_Cons add.assoc)
    qed
  qed
  moreover from us(1) have "ups' = ups @ map upstream_block (u # us)" by simp
  moreover from us(2) have "length (u # us) = length (e # es)" by simp
  moreover from us(3) c1 have
    "upstream_counter st' = upstream_counter st + int (anon_count (e # es))"
    by (simp add: anon_count_Cons)
  ultimately show ?case by blast
qed


lemma parse_servers_names:
  "parse_servers items (ups, cfgs, st) = Inr (ups', cfgs', st') \<Longrightarrow>
   \<forall>e \<in> set (concat (map (\<lambda>kv. upstream_entries (snd kv)) items)). unshared e \<Longrightarrow>
   \<exists>us. ups' = ups @ map upstream_block us \<and>
        length us = length (concat (map (\<lambda>kv. upstream_entries (snd kv)) items)) \<and>
        upstream_counter st' =
          upstream_counter st + int (anon_count (concat (map (\<lambda>kv. upstream_entries (snd kv)) items))) \<and>
        (\<forall>i < length us. anonymous (concat (map (\<lambda>kv. upstream_entries (snd kv)) items) ! i) \<longrightarrow>
           up_name (us ! i) =
             auto_name (upstream_counter st + 1 +
               int (anon_count (take i (concat (map (\<lambda>kv. upstream_entries (snd kv)) items))))))"
proof (induction items arbitrary: ups cfgs st)
  case Nil
  then show ?case by (simp add: anon_count_def)
next
  case (Cons item items)
  let ?rest = "concat (map (\<lambda>kv. upstream_entries (snd kv)) items)"
  obtain sn sc where item: "item = (sn, sc)" by (cases item)
  from Cons.prems(1) item obtain has where
    has: "py_contains ''upstream'' sc = Inr has" by (auto simp: bindE_Inr)
  from Cons.prems(2) item have
    uh: "\<forall>e \<in> set (upstream_entries sc). unshared e" and
    ur: "\<forall>e \<in> set ?rest. unshared e" by simp_all
  show ?case
  proof (cases has)
    case False
    with has have e: "upstream_entries sc = []" by (simp add: upstream_entries_def)
    from False Cons.prems(1) item has have
      "parse_servers items (ups, cfgs, st) = Inr (ups', cfgs', st')" by simp
    from Cons.IH [OF this ur] e item show ?thesis by simp
  next
    case True
    with Cons.prems(1) item has obtain c es ups1 cfgs1 st1 where
      c: "py_getitem sc ''upstream'' = Inr c" and
      es: "py_iter (if isinstance_str c \<or> isinstance_dict c then PList [c] else c) = Inr es" and
      e: "parse_entries sn es (ups, cfgs, st) = Inr (ups1, cfgs1, st1)" and
      r: "parse_servers items (ups1, cfgs1, st1) = Inr (ups', cfgs', st')"
      by (auto simp: bindE_Inr Let_def)
    from True has c es have ue: "upstream_entries sc = es"
      by (auto simp: upstream_entries_def split: if_splits)
    from uh ue have "\<forall>e \<in> set es. unshared e" by simp
    from parse_entries_names [OF e this] obtain us1 where
      us1: "ups1 = ups @ map upstream_block us1" "length us1 = length es"
           "upstream_counter st1 = upstream_counter st + int (anon_count es)"
           "\<forall>i < length es. anonymous (es ! i) \<longrightarrow>
              up_name (us1 ! i) = auto_name (upstream_counter st + 1 + int (anon_count (take i es)))"
      by blast
    from Cons.IH [OF r ur] obtain us2 where
      us2: "ups' = ups1 @ map upstream_block us2" "length us2 = length ?rest"
           "upstream_counter st' = upstream_counter st1 + int (anon_count ?rest)"
           "\<forall>i < length us2. anonymous (?rest ! i) \<longrightarrow>
              up_name (us2 ! i) =
                auto_name (upstream_counter st1 + 1 + int (anon_count (take i ?rest)))"
      by blast
    have all: "concat (map (\<lambda>kv. upstream_entries (snd kv)) (item # items)) = es @ ?rest"
      using item ue by simp
    have "\<forall>i < length (us1 @ us2). anonymous ((es @ ?rest) ! i) \<longrightarrow>
           up_name ((us1 @ us2) ! i) =
             auto_name (upstream_counter st + 1 + int (anon_count (take i (es @ ?rest))))"
    proof (intro allI impI)
      fix i
      assume i: "i < length (us1 @ us2)" and a: "anonymous ((es @ ?rest) ! i)"
      show "up_name ((us1 @ us2) ! i) =
             auto_name (upstream_counter st + 1 + int (anon_count (take i (es @ ?rest))))"
      proof (cases "i < length es")
        case True
        with a us1(2) us1(4) show ?thesis by (simp add: nth_append)
      next
        case False
        with i us1(2) have k: "i - length es < length us2" by simp
        from False a have "anonymous (?rest ! (i - length es))" by (simp add: nth_append)
        with k us2(4) have
          "up_name (us2 ! (i - length es)) =
             auto_name (upstream_counter st1 + 1 + int (anon_count (take (i - length es) ?rest)))"
          by blast
        with False us1(2) us1(3) show ?thesis
          by (simp add: nth_append anon_count_append ac_simps)
      qed
    qed
    moreover from us1(1) us2(1) have "ups' = ups @ map upstream_block (us1 @ us2)" by simp
    moreover from us1(2) us2(2) have "length (us1 @ us2) = length (es @ ?rest)" by simp
    moreover from us1(3) us2(3) have
      "upstream_counter st' = upstream_counter st + int (anon_count (es @ ?rest))"
      by (simp add: anon_count_append)
    ultimately show ?thesis unfolding all by blast
  qed
qed

lemma anon_count_take_mono:
  assumes "i < j" "j \<le> length es" "anonymous (es ! i)"
  shows "anon_count (take i es) < anon_count (take j es)"
proof -
  from assms have i: "i < length es" by simp
  have "take j es = take (Suc i) es @ take (j - Suc i) (drop (Suc i) es)"
    using assms(1) by (metis Suc_leI le_add_diff_inverse take_add)
  also have "take (Suc i) es = take i es @ [es ! i]"
    using i by (simp add: take_Suc_conv_app_nth)
  finally show ?thesis using assms(3) by (simp add: anon_count_def)
qed


text \<open>
  What the counter achieves. In a run that starts with the counter at 0, in which
  \<^verbatim>\<open>parse_upstreams\<close> returns and no upstream entry is a shared mapping,
  the upstream blocks are those of the entries of the document in encounter order, and the
  \<open>i\<close>-th entry, when it is a mapping without \<^verbatim>\<open>name\<close>, gets the name
  \<^verbatim>\<open>upstream-auto-N\<close> with \<open>N\<close> one more than the number of such entries before it in
  the whole document: \<open>N\<close> grows strictly in encounter order, across servers, and the
  generated names are pairwise distinct.
\<close>

theorem unshared_upstream_names:
  assumes p: "parse_upstreams doc st = Inr (ups, cfgs, st')"
    and c0: "upstream_counter st = 0"
    and un: "\<forall>e \<in> set (document_entries doc). unshared e"
  shows "\<exists>us. ups = map upstream_block us \<and>
           length us = length (document_entries doc) \<and>
           (\<forall>i < length us. anonymous (document_entries doc ! i) \<longrightarrow>
              up_name (us ! i) =
                auto_name (1 + int (anon_count (take i (document_entries doc))))) \<and>
           (\<forall>i j. i < j \<and> j < length us \<and> anonymous (document_entries doc ! i) \<and>
                  anonymous (document_entries doc ! j) \<longrightarrow>
              anon_count (take i (document_entries doc)) <
                anon_count (take j (document_entries doc)) \<and>
              up_name (us ! i) \<noteq> up_name (us ! j))"
proof -
  from p obtain servers items where
    s: "py_get doc ''servers'' (PDict []) = Inr servers" and
    i: "py_items servers = Inr items" and
    r: "parse_servers items ([], [], st) = Inr (ups, cfgs, st')"
    by (auto simp: parse_upstreams_def bindE_Inr)
  from s i have de: "document_entries doc = concat (map (\<lambda>kv. upstream_entries (snd kv)) items)"
    by (simp add: document_entries_def)
  from un de have "\<forall>e \<in> set (concat (map (\<lambda>kv. upstream_entries (snd kv)) items)). unshared e"
    by simp
  from parse_servers_names [OF r this] c0 de obtain us where
    us: "ups = map upstream_block us" "length us = length (document_entries doc)"
        "\<forall>i < length us. anonymous (document_entries doc ! i) \<longrightarrow>
           up_name (us ! i) = auto_name (1 + int (anon_count (take i (document_entries doc))))"
    by auto
  have "\<forall>i j. i < j \<and> j < length us \<and> anonymous (document_entries doc ! i) \<and>
                  anonymous (document_entries doc ! j) \<longrightarrow>
              anon_count (take i (document_entries doc)) <
                anon_count (take j (document_entries doc)) \<and>
              up_name (us ! i) \<noteq> up_name (us ! j)"
  proof (intro allI impI)
    fix i j
    assume h: "i < j \<and> j < length us \<and> anonymous (document_entries doc ! i) \<and>
                  anonymous (document_entries doc ! j)"
    with us(2) have lt: "anon_count (take i (document_entries doc)) <
                anon_count (take j (document_entries doc))"
      by (intro anon_count_take_mono) auto
    from h us(3) have
      ni: "up_name (us ! i) = auto_name (1 + int (anon_count (take i (document_entries doc))))" and
      nj: "up_name (us ! j) = auto_name (1 + int (anon_count (take j (document_entries doc))))"
      by auto
    have "up_name (us ! i) \<noteq> up_name (us ! j)"
    proof
      assume "up_name (us ! i) = up_name (us ! j)"
      with ni nj have "auto_name (1 + int (anon_count (take i (document_entries doc)))) =
                       auto_name (1 + int (anon_count (take j (document_entries doc))))"
        by simp
      then have "1 + int (anon_count (take i (document_entries doc))) =
                 1 + int (anon_count (take j (document_entries doc)))"
        by (intro auto_name_inj) auto
      with lt show False by simp
    qed
    with lt show "anon_count (take i (document_entries doc)) <
                anon_count (take j (document_entries doc)) \<and>
              up_name (us ! i) \<noteq> up_name (us ! j)" by blast
  qed
  with us show ?thesis by blast
qed

theorem unshared_upstream_names_witness:
  "parse_upstreams
     (PDict [(''servers'', PDict
        [(''a'', PDict [(''upstream'',
                  PDict [(''url'', PStr ''http://x''), (''location'', PStr ''/'')])]),
         (''b'', PDict [(''upstream'',
                  PDict [(''url'', PStr ''uwsgi://y''), (''location'', PStr ''/'')])])])])
     \<lparr>upstream_counter = 0, le_domain_txt = None, shared = []\<rparr> =
   Inr ([PTuple [PStr ''upstream'', PStr ''upstream-auto-1'',
                 PList [PTuple [PStr ''server'', PStr ''x'']]],
         PTuple [PStr ''upstream'', PStr ''upstream-auto-2'',
                 PList [PTuple [PStr ''server'', PStr ''y'']]]],
        [(''a'', [\<lparr>up_name = PStr ''upstream-auto-1'', up_location = PStr ''/'',
                     up_url = ''x'', up_type = ''http''\<rparr>]),
         (''b'', [\<lparr>up_name = PStr ''upstream-auto-2'', up_location = PStr ''/'',
                     up_url = ''y'', up_type = ''uwsgi''\<rparr>])],
        \<lparr>upstream_counter = 2, le_domain_txt = None, shared = []\<rparr>) \<and>
   (\<exists>us :: upstream list. length us = 2 \<and> up_name (us ! 0) = PStr ''upstream-auto-1'' \<and>
         up_name (us ! 1) = PStr ''upstream-auto-2'' \<and> up_name (us ! 0) \<noteq> up_name (us ! 1))"
proof -
  let ?doc = "PDict [(''servers'', PDict
        [(''a'', PDict [(''upstream'',
                  PDict [(''url'', PStr ''http://x''), (''location'', PStr ''/'')])]),
         (''b'', PDict [(''upstream'',
                  PDict [(''url'', PStr ''uwsgi://y''), (''location'', PStr ''/'')])])])]"
  let ?st = "\<lparr>upstream_counter = 0, le_domain_txt = None, shared = []\<rparr>"
  have p: "parse_upstreams ?doc ?st =
   Inr ([PTuple [PStr ''upstream'', PStr ''upstream-auto-1'',
                 PList [PTuple [PStr ''server'', PStr ''x'']]],
         PTuple [PStr ''upstream'', PStr ''upstream-auto-2'',
                 PList [PTuple [PStr ''server'', PStr ''y'']]]],
        [(''a'', [\<lparr>up_name = PStr ''upstream-auto-1'', up_location = PStr ''/'',
                     up_url = ''x'', up_type = ''http''\<rparr>]),
         (''b'', [\<lparr>up_name = PStr ''upstream-auto-2'', up_location = PStr ''/'',
                     up_url = ''y'', up_type = ''uwsgi''\<rparr>])],
        \<lparr>upstream_counter = 2, le_domain_txt = None, shared = []\<rparr>)"
    by (simp add: parse_upstreams_def parse_single_upstream_def isinstance_str_def
                  isinstance_dict_def Let_def str_int_def str_nat_small digit_def py_str_def
                  upstream_block_def)
  have de: "document_entries ?doc =
              [PDict [(''url'', PStr ''http://x''), (''location'', PStr ''/'')],
               PDict [(''url'', PStr ''uwsgi://y''), (''location'', PStr ''/'')]]"
    by (simp add: document_entries_def upstream_entries_def isinstance_str_def
                  isinstance_dict_def)
  have c0: "upstream_counter ?st = 0" by simp
  have un: "\<forall>e \<in> set (document_entries ?doc). unshared e" by (simp add: de unshared_def)
  from unshared_upstream_names [OF p c0 un] obtain us :: "upstream list" where
    l: "length us = length (document_entries ?doc)" and
    n: "\<forall>i < length us. anonymous (document_entries ?doc ! i) \<longrightarrow>
          up_name (us ! i) = auto_name (1 + int (anon_count (take i (document_entries ?doc))))" and
    d: "\<forall>i j. i < j \<and> j < length us \<and> anonymous (document_entries ?doc ! i) \<and>
              anonymous (document_entries ?doc ! j) \<longrightarrow>
          anon_count (take i (document_entries ?doc)) < anon_count (take j (document_entries ?doc)) \<and>
          up_name (us ! i) \<noteq> up_name (us ! j)"
    by blast
  from l de have l2: "length us = 2" by simp
  from n l2 de have n0: "up_name (us ! 0) = PStr ''upstream-auto-1''"
    by (simp add: anonymous_def anon_count_def auto_name_def str_int_def str_nat_small digit_def)
  from n l2 de have n1: "up_name (us ! 1) = PStr ''upstream-auto-2''"
    by (simp add: anonymous_def anon_count_def auto_name_def str_int_def str_nat_small digit_def)
  from n0 n1 have "up_name (us ! 0) \<noteq> up_name (us ! 1)" by simp
  with p l2 n0 n1 show ?thesis by blast
qed

text \<open>
  C7. The code breaks the statement on a document in which two servers give one upstream
  mapping, written once with an anchor and named again through its alias:

  \<^verbatim>\<open>servers: {a: {upstream: &u {url: "http://x:8000", location: /}}, b: {upstream: *u}}\<close>

  Both entries lack a name in the document. The first gets \<^verbatim>\<open>upstream-auto-1\<close>, and the
  assignment \<^verbatim>\<open>config['name'] = ...\<close> writes it into the shared mapping; at the second entry
  the test \<^verbatim>\<open>'name' not in config\<close> finds that name, so the counter stays at 1 and the
  run emits two \<^verbatim>\<open>upstream\<close> blocks called \<^verbatim>\<open>upstream-auto-1\<close>.
\<close>

theorem shared_upstream_entry_reuses_name:
  "parse_upstreams
     (PDict [(''servers'', PDict
        [(''a'', PDict [(''upstream'', PRef 0)]),
         (''b'', PDict [(''upstream'', PRef 0)])])])
     \<lparr>upstream_counter = 0, le_domain_txt = None,
      shared = [(0, [(''url'', PStr ''http://x:8000''), (''location'', PStr ''/'')])]\<rparr> =
   Inr ([PTuple [PStr ''upstream'', PStr ''upstream-auto-1'',
                 PList [PTuple [PStr ''server'', PStr ''x:8000'']]],
         PTuple [PStr ''upstream'', PStr ''upstream-auto-1'',
                 PList [PTuple [PStr ''server'', PStr ''x:8000'']]]],
        [(''a'', [\<lparr>up_name = PStr ''upstream-auto-1'', up_location = PStr ''/'',
                     up_url = ''x:8000'', up_type = ''http''\<rparr>]),
         (''b'', [\<lparr>up_name = PStr ''upstream-auto-1'', up_location = PStr ''/'',
                     up_url = ''x:8000'', up_type = ''http''\<rparr>])],
        \<lparr>upstream_counter = 1, le_domain_txt = None,
         shared = [(0, [(''url'', PStr ''http://x:8000''), (''location'', PStr ''/''),
                        (''name'', PStr ''upstream-auto-1'')])]\<rparr>)"
  by (simp add: parse_upstreams_def parse_single_upstream_def isinstance_str_def
                isinstance_dict_def Let_def str_int_def str_nat_small digit_def py_str_def
                upstream_block_def)

section \<open>Server blocks: the TLS mode and the host check\<close>

text \<open>
  C1, as the claim states it, fails: with \<^verbatim>\<open>tls\<close> absent, and with \<^verbatim>\<open>tls: true\<close>, the
  chain of tests on \<^verbatim>\<open>tls\<close> ends in its \<^verbatim>\<open>else\<close> and raises.
\<close>

theorem tls_default_counterexample:
  "generate_server ''app'' (PDict [(''server_name'', PStr ''example.com'')]) []
     \<lparr>upstream_counter = 0, le_domain_txt = None, shared = []\<rparr> =
     Inl (Exception ''app.tls value is invalid'') \<and>
   generate_server ''app'' (PDict [(''server_name'', PStr ''example.com''), (''tls'', PBool True)]) []
     \<lparr>upstream_counter = 0, le_domain_txt = None, shared = []\<rparr> =
     Inl (Exception ''app.tls value is invalid'')"
  by (simp add: generate_server_def server_item_def init_vars_def resolve_tls_def isinstance_dict_def)

lemma server_item_vars:
  "server_item name k c vs = Inr vs1 \<Longrightarrow>
     sv_tls vs1 = (if k = ''tls'' then c else sv_tls vs) \<and>
     sv_server_name vs1 = (if k = ''server_name'' then c else sv_server_name vs) \<and>
     sv_check_host_header vs1 =
       (if k = ''check_host_header'' then c = PBool True else sv_check_host_header vs)"
  unfolding server_item_def
  by (cases c) (auto simp: bindE_Inr split: if_splits)

lemma server_items_tls:
  "server_items name items vs = Inr vs' \<Longrightarrow>
   \<forall>c. (''tls'', c) \<in> set items \<longrightarrow> c = PBool True \<Longrightarrow>
   sv_tls vs = PNone \<or> sv_tls vs = PBool True \<Longrightarrow>
   sv_tls vs' = PNone \<or> sv_tls vs' = PBool True"
proof (induction items arbitrary: vs)
  case Nil
  then show ?case by simp
next
  case (Cons item items)
  obtain k c where item: "item = (k, c)" by (cases item)
  from Cons.prems(1) item obtain vs1 where
    s: "server_item name k c vs = Inr vs1" and r: "server_items name items vs1 = Inr vs'"
    by (auto simp: bindE_Inr)
  from server_item_vars [OF s] have t: "sv_tls vs1 = (if k = ''tls'' then c else sv_tls vs)"
    by blast
  have "sv_tls vs1 = PNone \<or> sv_tls vs1 = PBool True"
  proof (cases "k = ''tls''")
    case True
    with Cons.prems(2) item have "c = PBool True" by simp
    with t True show ?thesis by simp
  next
    case False
    with t Cons.prems(3) show ?thesis by simp
  qed
  moreover from Cons.prems(2) have "\<forall>c. (''tls'', c) \<in> set items \<longrightarrow> c = PBool True" by simp
  ultimately show ?case using Cons.IH [OF r] by blast
qed

lemma resolve_tls_invalid:
  "tls = PNone \<or> tls = PBool True \<Longrightarrow>
   resolve_tls name sn tls st = Inl (Exception (name @ ''.tls value is invalid''))"
  by (auto simp: resolve_tls_def isinstance_dict_def)

text \<open>
  C1, amended. For every server entry whose \<^verbatim>\<open>tls\<close> field is absent or \<^verbatim>\<open>true\<close>,
  \<^verbatim>\<open>generate_server\<close> fails and emits no block; when the other fields are accepted and
  \<^verbatim>\<open>server_name\<close> is set, the failure is the error that the \<^verbatim>\<open>tls\<close> value is invalid.
\<close>

theorem tls_absent_or_true_rejected:
  assumes "\<forall>c. (''tls'', c) \<in> set kvs \<longrightarrow> c = PBool True"
  shows "(\<exists>e. generate_server name (PDict kvs) ups st = Inl e) \<and>
         (\<forall>vs. server_items name kvs init_vars = Inr vs \<and> truthy (sv_server_name vs) \<longrightarrow>
            generate_server name (PDict kvs) ups st =
              Inl (Exception (name @ ''.tls value is invalid'')))"
proof (cases "server_items name kvs init_vars")
  case (Inl e)
  then show ?thesis by (simp add: generate_server_def)
next
  case (Inr vs)
  have "sv_tls init_vars = PNone \<or> sv_tls init_vars = PBool True"
    by (simp add: init_vars_def)
  with server_items_tls [OF Inr assms] have "sv_tls vs = PNone \<or> sv_tls vs = PBool True"
    by blast
  then have "resolve_tls name (sv_server_name vs) (sv_tls vs) st =
               Inl (Exception (name @ ''.tls value is invalid''))"
    by (rule resolve_tls_invalid)
  with Inr show ?thesis by (simp add: generate_server_def)
qed

theorem tls_absent_or_true_rejected_witness:
  "generate_server ''app''
     (PDict [(''server_name'', PStr ''example.com''), (''tls'', PBool True),
             (''check_host_header'', PBool False)]) []
     \<lparr>upstream_counter = 0, le_domain_txt = None, shared = []\<rparr> =
   Inl (Exception ''app.tls value is invalid'')"
proof -
  let ?kvs = "[(''server_name'', PStr ''example.com''), (''tls'', PBool True),
               (''check_host_header'', PBool False)]"
  have a: "\<forall>c. (''tls'', c) \<in> set ?kvs \<longrightarrow> c = PBool True" by simp
  have s: "server_items ''app'' ?kvs init_vars =
             Inr \<lparr>sv_server_name = PStr ''example.com'', sv_tls = PBool True,
                  sv_check_host_header = False, sv_extra_config = []\<rparr>"
    by (simp add: server_item_def init_vars_def)
  from tls_absent_or_true_rejected [OF a, of "''app''" "[]" "\<lparr>upstream_counter = 0, le_domain_txt = None, shared = []\<rparr>"] s
  show ?thesis by simp
qed

lemma returns_simps [simp]: "returns P (Inl e)" "returns P (Inr y) = P y"
  by (simp_all add: returns_def)



lemma returnsD: "returns P m \<Longrightarrow> m = Inr y \<Longrightarrow> P y"
  by (simp add: returns_def)

lemma guard_free_simps [simp]:
  "guard_free []"
  "guard_free (xs @ ys) = (guard_free xs \<and> guard_free ys)"
  by (auto simp: guard_free_def)

lemma guard_free_Cons_list [simp]: "guard_free (PList l # xs) = guard_free xs"
  by (auto simp: guard_free_def host_guard_def)

lemma guard_free_Cons_tuple [simp]:
  "t \<noteq> ''if'' \<Longrightarrow> guard_free (PTuple (PStr t # rest) # xs) = guard_free xs"
  by (auto simp: guard_free_def host_guard_def)

lemma mapE_elem:
  "mapE f xs = Inr ys \<Longrightarrow> y \<in> set ys \<Longrightarrow> \<exists>x \<in> set xs. f x = Inr y"
  by (induction xs arbitrary: ys) (auto simp: bindE_Inr)


lemma guard_free_concat: "(\<And>ys. ys \<in> set yss \<Longrightarrow> guard_free ys) \<Longrightarrow> guard_free (concat yss)"
  by (auto simp: guard_free_def)











lemma returns_case_prod:
  "(\<And>a b. returns P (f a b)) \<Longrightarrow> returns P (case p of (a, b) \<Rightarrow> f a b)"
  by (cases p) simp
















section \<open>Global HTTP settings: merging the raw options\<close>

text \<open>
  C8, as the claim states it, fails: the code cuts an entry at every single space, not at
  whitespace. The entry \<^verbatim>\<open>" gzip off"\<close> splits at whitespace into \<^verbatim>\<open>gzip\<close> and
  \<^verbatim>\<open>off\<close>, so the stated merge replaces the baseline \<^verbatim>\<open>gzip on\<close> where it stands; the
  code gets the first token \<^verbatim>\<open>''\<close>, finds no option with it, and appends: both
  \<^verbatim>\<open>gzip\<close> lines are in the result. (An entry with a tab between the tokens is one
  token for the code, and is appended too.)
\<close>

theorem http_raw_options_counterexample:
  "whitespace_split '' gzip off'' = [''gzip'', ''off''] \<and>
   merge_raw_options whitespace_split ['' gzip off''] =
     NGINX_HTTP[6 := PList [PStr ''gzip'', PStr ''off'']] \<and>
   generate_http (PDict [(''http_raw_options'', PList [PStr '' gzip off''])]) =
     Inr (NGINX_HTTP @ [PList [PStr [], PStr ''gzip'', PStr ''off'']]) \<and>
   generate_http (PDict [(''http_raw_options'', PList [PStr '' gzip off''])]) \<noteq>
     Inr (merge_raw_options whitespace_split ['' gzip off''])"
proof -
  have w: "whitespace_split '' gzip off'' = [''gzip'', ''off'']"
    by (simp add: whitespace_split_def is_space_def)
  have m: "merge_raw_options whitespace_split ['' gzip off''] =
             NGINX_HTTP[6 := PList [PStr ''gzip'', PStr ''off'']]"
    by (simp add: merge_raw_options_def w NGINX_HTTP_def tup_def line_def)
  have g: "generate_http (PDict [(''http_raw_options'', PList [PStr '' gzip off''])]) =
             Inr (NGINX_HTTP @ [PList [PStr [], PStr ''gzip'', PStr ''off'']])"
    by (simp add: generate_http_def NGINX_HTTP_def tup_def)
  have "length (NGINX_HTTP @ [PList [PStr [], PStr ''gzip'', PStr ''off'']]) \<noteq>
        length (NGINX_HTTP[6 := PList [PStr ''gzip'', PStr ''off'']])"
    by simp
  then have "NGINX_HTTP @ [PList [PStr [], PStr ''gzip'', PStr ''off'']] \<noteq>
             NGINX_HTTP[6 := PList [PStr ''gzip'', PStr ''off'']]"
    by metis
  with w m g show ?thesis by simp
qed

lemma split_space_nonempty: "split_space s \<noteq> []"
  by (induction s) (auto split: list.splits)

lemma wf_line_item0:
  "wf_line option \<Longrightarrow> py_item0 option = Inr k \<longleftrightarrow> first_token option = Some k"
  by (cases option rule: first_token.cases) (auto simp: wf_line_def)

lemma find_first_None: "find_first P xs = None \<longleftrightarrow> (\<forall>x \<in> set xs. \<not> P x)"
  by (induction xs) auto

lemma find_first_Some:
  "find_first P xs = Some i \<Longrightarrow> i < length xs \<and> P (xs ! i)"
  by (induction xs arbitrary: i) (auto split: if_splits)

lemma http_scan_find:
  "\<forall>option \<in> set http. wf_line option \<Longrightarrow> idx \<le> length http \<Longrightarrow>
   http_scan http parts p0 idx =
     Inr (case find_first (\<lambda>option. first_token option = Some p0) (drop idx http) of
            Some i \<Rightarrow> http[idx + i := parts]
          | None \<Rightarrow> http @ [parts])"
proof (induction http parts p0 idx rule: http_scan.induct)
  case (1 http parts p0 idx)
  note wf = "1.prems"(1)
  show ?case
  proof (cases "idx < length http")
    case False
    with "1.prems"(2) show ?thesis by (subst http_scan.simps) simp
  next
    case True
    then have d: "drop idx http = http ! idx # drop (Suc idx) http"
      by (simp add: Cons_nth_drop_Suc)
    from True wf have w: "wf_line (http ! idx)" by simp
    then obtain k where k: "first_token (http ! idx) = Some k" by (auto simp: wf_line_def)
    with w have i0: "py_item0 (http ! idx) = Inr k" by (simp add: wf_line_item0)
    show ?thesis
    proof (cases "k = p0")
      case True
      with \<open>idx < length http\<close> i0 k d show ?thesis by (subst http_scan.simps) simp
    next
      case False
      from \<open>idx < length http\<close> have "idx + 1 \<le> length http" by simp
      from "1.IH" [OF \<open>idx < length http\<close> False wf this]
      have "http_scan http parts p0 (idx + 1) =
              Inr (case find_first (\<lambda>option. first_token option = Some p0) (drop (idx + 1) http) of
                     Some i \<Rightarrow> http[idx + 1 + i := parts]
                   | None \<Rightarrow> http @ [parts])" .
      with \<open>idx < length http\<close> i0 k d False show ?thesis
        by (subst http_scan.simps) (simp split: option.splits)
    qed
  qed
qed

lemma wf_line_line: "wf_line (line (t # ts))"
  by (simp add: wf_line_def line_def)

lemma merge_option_wf:
  "\<forall>option \<in> set http. wf_line option \<Longrightarrow> \<forall>option \<in> set (merge_option tokens http). wf_line option"
  by (cases tokens)
     (auto simp: wf_line_line split: option.splits dest!: set_update_subset_insert [THEN subsetD])

lemma http_entries_merge:
  "\<forall>option \<in> set http. wf_line option \<Longrightarrow>
   http_entries (map PStr entries) http =
     Inr (foldl (\<lambda>http entry. merge_option (split_space entry) http) http entries)"
proof (induction entries arbitrary: http)
  case Nil
  show ?case by simp
next
  case (Cons e es)
  obtain t ts where p: "split_space e = t # ts"
    using split_space_nonempty [of e] by (cases "split_space e") auto
  have w: "\<forall>option \<in> set (merge_option (t # ts) http). wf_line option"
    using Cons.prems by (rule merge_option_wf)
  show ?case
  proof (cases "t = ''include''")
    case True
    with p Cons.IH [OF w] show ?thesis by (simp add: line_def)
  next
    case False
    from http_scan_find [OF Cons.prems, of 0 "line (t # ts)" "PStr t"]
    have "http_scan http (line (t # ts)) (PStr t) 0 = Inr (merge_option (t # ts) http)"
      using False by (simp del: http_scan.simps split: option.splits)
    with p False Cons.IH [OF w] show ?thesis by (simp add: line_def del: http_scan.simps)
  qed
qed

lemma NGINX_HTTP_wf: "\<forall>option \<in> set NGINX_HTTP. wf_line option"
  by (simp add: NGINX_HTTP_def tup_def wf_line_def)

lemma option_keys_append:
  "option_keys (xs @ ys) = option_keys xs @ option_keys ys"
  by (simp add: option_keys_def)

lemma merge_option_keys:
  assumes "distinct (option_keys http)"
  shows "distinct (option_keys (merge_option tokens http))"
proof (cases tokens)
  case Nil
  with assms show ?thesis by simp
next
  case (Cons t ts)
  show ?thesis
  proof (cases "t = ''include''")
    case True
    with Cons assms show ?thesis by (simp add: option_keys_def line_def)
  next
    case False
    show ?thesis
    proof (cases "find_first (\<lambda>option. first_token option = Some (PStr t)) http")
      case None
      then have "Some (PStr t) \<notin> set (map first_token http)"
        by (auto simp: find_first_None)
      with Cons False None assms show ?thesis
        by (simp add: option_keys_def line_def)
    next
      case (Some i)
      from find_first_Some [OF Some] have
        i: "i < length http" and k: "first_token (http ! i) = Some (PStr t)" by simp_all
      have "map first_token (http[i := line (t # ts)]) = (map first_token http)[i := Some (PStr t)]"
        by (simp add: map_update line_def)
      also have "\<dots> = map first_token http"
        using i k by (metis length_map list_update_id nth_map)
      finally show ?thesis using Cons False Some assms by (simp add: option_keys_def)
    qed
  qed
qed

lemma filter_update_other:
  "i < length xs \<Longrightarrow> \<not> Q (xs ! i) \<Longrightarrow> \<not> Q y \<Longrightarrow> filter Q (xs[i := y]) = filter Q xs"
proof (induction xs arbitrary: i)
  case Nil
  then show ?case by simp
next
  case (Cons x xs)
  then show ?case by (cases i) simp_all
qed

lemma merge_option_includes:
  "filter is_include (merge_option (t # ts) http) =
     filter is_include http @ (if t = ''include'' then [line (t # ts)] else [])"
proof (cases "t = ''include''")
  case True
  then show ?thesis by (simp add: is_include_def line_def)
next
  case False
  show ?thesis
  proof (cases "find_first (\<lambda>option. first_token option = Some (PStr t)) http")
    case None
    with False show ?thesis by (simp add: is_include_def line_def)
  next
    case (Some i)
    from find_first_Some [OF Some] have
      i: "i < length http" and k: "first_token (http ! i) = Some (PStr t)" by simp_all
    from k False have "\<not> is_include (http ! i)" by (simp add: is_include_def)
    moreover from False have "\<not> is_include (line (t # ts))" by (simp add: is_include_def line_def)
    ultimately have "filter is_include (http[i := line (t # ts)]) = filter is_include http"
      using i by (intro filter_update_other)
    with False Some show ?thesis by simp
  qed
qed

lemma merge_fold_keys:
  "distinct (option_keys http) \<Longrightarrow>
   distinct (option_keys (foldl (\<lambda>http entry. merge_option (split_space entry) http) http entries))"
  by (induction entries arbitrary: http) (simp_all add: merge_option_keys)

lemma merge_fold_includes:
  "filter is_include (foldl (\<lambda>http entry. merge_option (split_space entry) http) http entries) =
     filter is_include http @
     map (\<lambda>entry. line (split_space entry))
       (filter (\<lambda>entry. hd (split_space entry) = ''include'') entries)"
proof (induction entries arbitrary: http)
  case Nil
  show ?case by simp
next
  case (Cons e es)
  obtain t ts where p: "split_space e = t # ts"
    using split_space_nonempty [of e] by (cases "split_space e") auto
  from Cons [of "merge_option (t # ts) http"] p show ?case
    by (simp add: merge_option_includes del: merge_option.simps)
qed

lemma NGINX_HTTP_keys: "distinct (option_keys NGINX_HTTP)"
  by (simp add: NGINX_HTTP_def tup_def option_keys_def)

lemma NGINX_HTTP_includes:
  "filter is_include NGINX_HTTP = [tup [''include'', ''/etc/nginx/mime.types'']]"
  by (simp add: NGINX_HTTP_def tup_def is_include_def)

text \<open>
  C8, amended. Each entry of \<^verbatim>\<open>http_raw_options\<close> is cut at every single space
  (\<^verbatim>\<open>entry.split(' ')\<close>). For a list of strings \<open>generate_http\<close> returns the stated merge
  with that cut: an entry whose first token is \<^verbatim>\<open>include\<close> is appended; any other entry
  replaces, where it stands, the first option with the same first token, and is appended
  when there is none. So the first tokens of the options other than \<^verbatim>\<open>include\<close> lines stay
  pairwise distinct (no duplicate is added), and the \<^verbatim>\<open>include\<close> lines of the result are
  the baseline one followed by every \<^verbatim>\<open>include\<close> entry, in order.
\<close>

theorem http_raw_options_merge:
  assumes "py_get doc ''http_raw_options'' (PList []) = Inr (PList (map PStr entries))"
  shows "generate_http doc = Inr (merge_raw_options split_space entries) \<and>
         distinct (option_keys (merge_raw_options split_space entries)) \<and>
         filter is_include (merge_raw_options split_space entries) =
           tup [''include'', ''/etc/nginx/mime.types''] #
           map (\<lambda>entry. line (split_space entry))
             (filter (\<lambda>entry. hd (split_space entry) = ''include'') entries)"
proof (intro conjI)
  show "generate_http doc = Inr (merge_raw_options split_space entries)"
    using assms http_entries_merge [OF NGINX_HTTP_wf, of entries]
    by (simp add: generate_http_def merge_raw_options_def)
  show "distinct (option_keys (merge_raw_options split_space entries))"
    unfolding merge_raw_options_def by (rule merge_fold_keys [OF NGINX_HTTP_keys])
  show "filter is_include (merge_raw_options split_space entries) =
           tup [''include'', ''/etc/nginx/mime.types''] #
           map (\<lambda>entry. line (split_space entry))
             (filter (\<lambda>entry. hd (split_space entry) = ''include'') entries)"
    unfolding merge_raw_options_def by (simp add: merge_fold_includes NGINX_HTTP_includes)
qed

theorem http_raw_options_merge_witness:
  "generate_http
     (PDict [(''http_raw_options'',
        PList [PStr ''gzip off'', PStr ''include a.conf'', PStr ''include b.conf''])]) =
   Inr (NGINX_HTTP[6 := PList [PStr ''gzip'', PStr ''off'']] @
        [PList [PStr ''include'', PStr ''a.conf''], PList [PStr ''include'', PStr ''b.conf'']])"
proof -
  let ?doc = "PDict [(''http_raw_options'',
        PList [PStr ''gzip off'', PStr ''include a.conf'', PStr ''include b.conf''])]"
  have "py_get ?doc ''http_raw_options'' (PList []) =
          Inr (PList (map PStr [''gzip off'', ''include a.conf'', ''include b.conf'']))"
    by simp
  from http_raw_options_merge [OF this] have
    "generate_http ?doc =
       Inr (merge_raw_options split_space [''gzip off'', ''include a.conf'', ''include b.conf''])"
    by blast
  also have "merge_raw_options split_space [''gzip off'', ''include a.conf'', ''include b.conf''] =
       NGINX_HTTP[6 := PList [PStr ''gzip'', PStr ''off'']] @
        [PList [PStr ''include'', PStr ''a.conf''], PList [PStr ''include'', PStr ''b.conf'']]"
    by (simp add: merge_raw_options_def NGINX_HTTP_def tup_def line_def)
  finally show ?thesis .
qed

section \<open>The run: the output is determined by the document\<close>















end
